theory Spec2Isabelle
  imports Complex_Main "HOL-Library.Monad_Syntax"
begin

section \<open>Tensor values\<close>

text \<open>
  The program builds a dataflow graph over tensors of floating-point numbers. A tensor entry
  is modelled as a real number or one of the three special values of the floating-point
  format. Arithmetic on finite values is exact real arithmetic here; the special values
  follow the IEEE rules, which is what the masking with \<open>float('-inf')\<close> relies on. Which
  entries are kept, masked, zero or NaN, and what a result depends on, do not hinge on the
  rounding of finite values. What does (the sum of a column of attention weights) is
  stated over the rounded operations of the section on binary32 arithmetic.
\<close>

datatype fl = Fin real | PInf | NInf | NaN

fun fneg :: "fl \<Rightarrow> fl" where
  "fneg (Fin a) = Fin (- a)"
| "fneg PInf = NInf"
| "fneg NInf = PInf"
| "fneg NaN = NaN"

fun fadd :: "fl \<Rightarrow> fl \<Rightarrow> fl" where
  "fadd (Fin a) (Fin b) = Fin (a + b)"
| "fadd (Fin a) PInf = PInf"
| "fadd (Fin a) NInf = NInf"
| "fadd PInf (Fin b) = PInf"
| "fadd PInf PInf = PInf"
| "fadd NInf (Fin b) = NInf"
| "fadd NInf NInf = NInf"
| "fadd PInf NInf = NaN"
| "fadd NInf PInf = NaN"
| "fadd NaN y = NaN"
| "fadd x NaN = NaN"

definition fsub :: "fl \<Rightarrow> fl \<Rightarrow> fl" where
  "fsub x y = fadd x (fneg y)"

text \<open>The sign of an infinite product; \<open>0 * inf\<close> is NaN.\<close>

definition inf_times :: "bool \<Rightarrow> real \<Rightarrow> fl" where
  "inf_times positive a =
     (if a = 0 then NaN else if (0 < a) = positive then PInf else NInf)"

fun fmul :: "fl \<Rightarrow> fl \<Rightarrow> fl" where
  "fmul (Fin a) (Fin b) = Fin (a * b)"
| "fmul (Fin a) PInf = inf_times True a"
| "fmul (Fin a) NInf = inf_times False a"
| "fmul PInf (Fin b) = inf_times True b"
| "fmul NInf (Fin b) = inf_times False b"
| "fmul PInf PInf = PInf"
| "fmul NInf NInf = PInf"
| "fmul PInf NInf = NInf"
| "fmul NInf PInf = NInf"
| "fmul NaN y = NaN"
| "fmul x NaN = NaN"

text \<open>Reciprocal; zero is the positive zero, so \<open>1 / 0 = inf\<close>.\<close>

fun finv :: "fl \<Rightarrow> fl" where
  "finv (Fin a) = (if a = 0 then PInf else Fin (1 / a))"
| "finv PInf = Fin 0"
| "finv NInf = Fin 0"
| "finv NaN = NaN"

fun fexp :: "fl \<Rightarrow> fl" where
  "fexp (Fin a) = Fin (exp a)"
| "fexp PInf = PInf"
| "fexp NInf = Fin 0"
| "fexp NaN = NaN"

fun ftanh :: "fl \<Rightarrow> fl" where
  "ftanh (Fin a) = Fin (tanh a)"
| "ftanh PInf = Fin 1"
| "ftanh NInf = Fin (- 1)"
| "ftanh NaN = NaN"

fun fmax :: "fl \<Rightarrow> fl \<Rightarrow> fl" where
  "fmax (Fin a) (Fin b) = Fin (max a b)"
| "fmax (Fin a) NInf = Fin a"
| "fmax NInf (Fin b) = Fin b"
| "fmax NInf NInf = NInf"
| "fmax PInf (Fin b) = PInf"
| "fmax (Fin a) PInf = PInf"
| "fmax PInf PInf = PInf"
| "fmax PInf NInf = PInf"
| "fmax NInf PInf = PInf"
| "fmax NaN y = NaN"
| "fmax x NaN = NaN"

text \<open>Reductions over a list of entries: sum (from 0) and maximum (from \<open>-inf\<close>).\<close>

definition fsum :: "fl list \<Rightarrow> fl" where
  "fsum xs = foldr fadd xs (Fin 0)"

definition fmaximum :: "fl list \<Rightarrow> fl" where
  "fmaximum xs = foldr fmax xs NInf"

definition neg_inf :: fl where
  \<comment> \<open>\<open>float('-inf')\<close>\<close>
  "neg_inf = NInf"

text \<open>
  A tensor is its shape and its entries, read by a multi-index. Only the entries at
  indices inside the shape are part of the tensor.
\<close>

record 'a tensor =
  shape :: "nat list"
  elem :: "nat list \<Rightarrow> 'a"

definition rank :: "'a tensor \<Rightarrow> nat" where
  "rank t = length (shape t)"

definition valid_index :: "nat list \<Rightarrow> nat list \<Rightarrow> bool" where
  "valid_index sh idx = list_all2 (\<lambda>i d. i < d) idx sh"

definition of_real_tensor :: "real tensor \<Rightarrow> fl tensor" where
  "of_real_tensor t = \<lparr>shape = shape t, elem = (\<lambda>idx. Fin (elem t idx))\<rparr>"

definition fill :: "nat list \<Rightarrow> 'a \<Rightarrow> 'a tensor" where
  \<comment> \<open>\<open>tf.fill(dims, value)\<close>\<close>
  "fill sh v = \<lparr>shape = sh, elem = (\<lambda>idx. v)\<rparr>"

section \<open>The tensor operations the program calls\<close>

text \<open>
  Each operation of the tensor library that the source calls is a function on tensors.
  An operation that the library rejects (operands of the wrong rank or of shapes that do
  not agree) returns \<open>None\<close>.
\<close>

definition tf_shape_at :: "'a tensor \<Rightarrow> nat \<Rightarrow> nat option" where
  \<comment> \<open>\<open>tf.shape(t)[k]\<close>\<close>
  "tf_shape_at t k = (if k < rank t then Some (shape t ! k) else None)"

definition sequence_mask :: "int tensor \<Rightarrow> nat \<Rightarrow> bool tensor" where
  \<comment> \<open>\<open>tf.sequence_mask(lengths, maxlen)\<close>: entry \<open>[.., j]\<close> is \<open>j < lengths[..]\<close>\<close>
  "sequence_mask lengths maxlen =
     \<lparr>shape = shape lengths @ [maxlen],
      elem = (\<lambda>idx. int (last idx) < elem lengths (butlast idx))\<rparr>"

definition expand_dims :: "'a tensor \<Rightarrow> nat \<Rightarrow> 'a tensor option" where
  "expand_dims t axis =
     (if axis \<le> rank t
      then Some \<lparr>shape = take axis (shape t) @ [1] @ drop axis (shape t),
                 elem = (\<lambda>idx. elem t (take axis idx @ drop (Suc axis) idx))\<rparr>
      else None)"

definition tile :: "'a tensor \<Rightarrow> nat list \<Rightarrow> 'a tensor option" where
  "tile t multiples =
     (if length multiples = rank t
      then Some \<lparr>shape = map2 (*) (shape t) multiples,
                 elem = (\<lambda>idx. elem t (map2 (\<lambda>i d. i mod d) idx (shape t)))\<rparr>
      else None)"

definition ones_like :: "fl tensor \<Rightarrow> fl tensor" where
  "ones_like t = \<lparr>shape = shape t, elem = (\<lambda>idx. Fin 1)\<rparr>"

definition scalar_mul :: "fl \<Rightarrow> fl tensor \<Rightarrow> fl tensor" where
  \<comment> \<open>a Python float times a tensor\<close>
  "scalar_mul c t = \<lparr>shape = shape t, elem = (\<lambda>idx. fmul c (elem t idx))\<rparr>"

definition tf_where :: "bool tensor \<Rightarrow> 'a tensor \<Rightarrow> 'a tensor \<Rightarrow> 'a tensor option" where
  \<comment> \<open>\<open>tf.where(condition, x, y)\<close> with a condition of the operands' shape\<close>
  "tf_where c x y =
     (if shape c = shape x \<and> shape x = shape y
      then Some \<lparr>shape = shape x,
                 elem = (\<lambda>idx. if elem c idx then elem x idx else elem y idx)\<rparr>
      else None)"

definition transpose_tensor :: "'a tensor \<Rightarrow> nat list \<Rightarrow> 'a tensor option" where
  \<comment> \<open>\<open>tf.transpose(t, perm)\<close>: axis \<open>k\<close> of the result is axis \<open>perm[k]\<close> of \<open>t\<close>\<close>
  "transpose_tensor t perm =
     (if length perm = rank t \<and> distinct perm \<and> list_all (\<lambda>k. k < rank t) perm
      then Some \<lparr>shape = map (\<lambda>k. shape t ! k) perm,
                 elem = (\<lambda>idx. elem t
                   (map (\<lambda>j. idx ! length (takeWhile (\<lambda>k. k \<noteq> j) perm)) [0..<rank t]))\<rparr>
      else None)"

definition softmax_weight :: "fl list \<Rightarrow> fl \<Rightarrow> fl" where
  \<comment> \<open>the softmax of the logit \<open>x\<close> among the logits \<open>along\<close> the normalised axis: the
      logits are shifted by their maximum, exponentiated, and scaled by the reciprocal
      of the sum\<close>
  "softmax_weight along x =
     (let m = fmaximum along;
          s = fsum (map (\<lambda>y. fexp (fsub y m)) along)
      in fmul (fexp (fsub x m)) (finv s))"

definition softmax :: "fl tensor \<Rightarrow> nat \<Rightarrow> fl tensor option" where
  \<comment> \<open>\<open>tf.nn.softmax(logits, dim)\<close>\<close>
  "softmax logits axis =
     (if axis < rank logits
      then Some \<lparr>shape = shape logits,
                 elem = (\<lambda>idx. softmax_weight
                   (map (\<lambda>i. elem logits (idx[axis := i])) [0..<shape logits ! axis])
                   (elem logits idx))\<rparr>
      else None)"

subsection \<open>einsum\<close>

text \<open>
  \<open>tf.einsum(equation, a, b)\<close> for an equation \<open>labels_a,labels_b->labels_out\<close>: an entry
  of the result is the sum, over every label that is not in the output, of the products
  of the operands' entries.
\<close>

definition parse_equation :: "string \<Rightarrow> (string \<times> string \<times> string) option" where
  "parse_equation eq =
     (let la = takeWhile (\<lambda>c. c \<noteq> CHR '','') eq;
          r1 = drop 1 (dropWhile (\<lambda>c. c \<noteq> CHR '','') eq);
          lb = takeWhile (\<lambda>c. c \<noteq> CHR ''-'') r1;
          r2 = dropWhile (\<lambda>c. c \<noteq> CHR ''-'') r1
      in if take 2 r2 = ''->'' then Some (la, lb, drop 2 r2) else None)"

definition label_dims :: "string \<Rightarrow> nat list \<Rightarrow> string \<Rightarrow> nat list \<Rightarrow> (char \<times> nat) list" where
  "label_dims la sa lb sb = zip la sa @ zip lb sb"

definition dims_agree :: "(char \<times> nat) list \<Rightarrow> bool" where
  "dims_agree ds = list_all (\<lambda>(l, d). map_of ds l = Some d) ds"

definition bind_labels :: "string \<Rightarrow> nat list \<Rightarrow> (char \<Rightarrow> nat)" where
  "bind_labels ls idx = fold (\<lambda>(l, i) env. env(l := i)) (zip ls idx) (\<lambda>l. 0)"

fun sum_over :: "(char \<times> nat) list \<Rightarrow> (char \<Rightarrow> nat) \<Rightarrow> ((char \<Rightarrow> nat) \<Rightarrow> fl) \<Rightarrow> fl" where
  "sum_over [] env f = f env"
| "sum_over ((l, d) # ls) env f = fsum (map (\<lambda>i. sum_over ls (env(l := i)) f) [0..<d])"

definition einsum :: "string \<Rightarrow> fl tensor \<Rightarrow> fl tensor \<Rightarrow> fl tensor option" where
  "einsum equation a b =
     (case parse_equation equation of
        None \<Rightarrow> None
      | Some (la, lb, lo) \<Rightarrow>
          let ds = label_dims la (shape a) lb (shape b);
              summed = remdups (filter (\<lambda>l. l \<notin> set lo) (la @ lb))
          in if length la = rank a \<and> length lb = rank b \<and> dims_agree ds
                \<and> distinct lo \<and> set lo \<subseteq> set (la @ lb)
             then Some \<lparr>shape = map (\<lambda>l. the (map_of ds l)) lo,
                        elem = (\<lambda>idx.
                          sum_over (map (\<lambda>l. (l, the (map_of ds l))) summed)
                            (bind_labels lo idx)
                            (\<lambda>env. fmul (elem a (map env la)) (elem b (map env lb))))\<rparr>
             else None)"

subsection \<open>concat, dense, squeeze\<close>

fun concat_elem :: "'a tensor list \<Rightarrow> nat \<Rightarrow> 'a \<Rightarrow> nat list \<Rightarrow> 'a" where
  "concat_elem [] axis dflt idx = dflt"
| "concat_elem (t # ts) axis dflt idx =
     (if idx ! axis < shape t ! axis then elem t idx
      else concat_elem ts axis dflt (idx[axis := idx ! axis - shape t ! axis]))"

definition tf_concat :: "fl tensor list \<Rightarrow> nat \<Rightarrow> fl tensor option" where
  \<comment> \<open>\<open>tf.concat(values, axis)\<close>: the operands agree on every axis but \<open>axis\<close>\<close>
  "tf_concat ts axis =
     (case ts of
        [] \<Rightarrow> None
      | t # _ \<Rightarrow>
          if axis < rank t
             \<and> list_all (\<lambda>u. rank u = rank t \<and> (shape u)[axis := 0] = (shape t)[axis := 0]) ts
          then Some \<lparr>shape = (shape t)[axis := sum_list (map (\<lambda>u. shape u ! axis) ts)],
                     elem = concat_elem ts axis (Fin 0)\<rparr>
          else None)"

text \<open>
  A dense layer owns two trainable variables, a kernel of shape \<open>[F, units]\<close> and a bias of
  shape \<open>[units]\<close>, created in the variable scope of the call. The model takes them as an
  argument.

  The number of units is a Python integer (\<open>Static\<close>). The source also passes an entry of
  \<open>tf.shape(t)\<close> (\<open>Dynamic\<close>): a tensor of the graph, whose value exists only when the graph
  runs. The layer cannot make the shape \<open>[F, units]\<close> of its kernel from a tensor, and the call
  raises while the graph is built.
\<close>

record dense_vars =
  kernel :: "fl tensor"
  bias :: "fl tensor"

datatype units_arg = Static nat | Dynamic nat

definition dense :: "dense_vars \<Rightarrow> fl tensor \<Rightarrow> units_arg \<Rightarrow> (fl \<Rightarrow> fl) \<Rightarrow> fl tensor option" where
  \<comment> \<open>\<open>tf.layers.dense(inputs, units, activation)\<close>, applied to the last axis\<close>
  "dense vars inputs units activation =
     (case units of
        Dynamic n \<Rightarrow> None
      | Static units \<Rightarrow>
          if 0 < rank inputs \<and> shape (kernel vars) = [last (shape inputs), units]
             \<and> shape (bias vars) = [units]
          then Some \<lparr>shape = butlast (shape inputs) @ [units],
                     elem = (\<lambda>idx. activation (fadd
                       (fsum (map (\<lambda>f. fmul (elem inputs (butlast idx @ [f]))
                                            (elem (kernel vars) [f, last idx]))
                                  [0..<last (shape inputs)]))
                       (elem (bias vars) [last idx])))\<rparr>
          else None)"

fun unsqueeze_index :: "nat list \<Rightarrow> nat list \<Rightarrow> nat list" where
  "unsqueeze_index [] idx = []"
| "unsqueeze_index (d # ds) idx =
     (if d = 1 then 0 # unsqueeze_index ds idx
      else (case idx of [] \<Rightarrow> 0 # unsqueeze_index ds [] | i # is \<Rightarrow> i # unsqueeze_index ds is))"

definition squeeze :: "'a tensor \<Rightarrow> 'a tensor" where
  \<comment> \<open>\<open>tf.squeeze(t)\<close> with no axis: every dimension of size 1 is removed\<close>
  "squeeze t =
     \<lparr>shape = filter (\<lambda>d. d \<noteq> 1) (shape t),
      elem = (\<lambda>idx. elem t (unsqueeze_index (shape t) idx))\<rparr>"

section \<open>The program\<close>

subsection \<open>\<open>maybe_mask_affinity\<close>\<close>

text \<open>
  The third argument is optional in the source; \<open>None\<close> stands for a call that leaves it
  out, which takes the default \<open>float('-inf')\<close>.
\<close>

definition maybe_mask_affinity ::
  "fl tensor \<Rightarrow> int tensor option \<Rightarrow> fl option \<Rightarrow> fl tensor option" where
  "maybe_mask_affinity affinity sequence_length affinity_mask_value =
     (case sequence_length of
        None \<Rightarrow> Some affinity
      | Some sequence_length \<Rightarrow> do {
          maxlen \<leftarrow> tf_shape_at affinity 1;
          let score_mask = sequence_mask sequence_length maxlen;
          expanded \<leftarrow> expand_dims score_mask 2;
          width \<leftarrow> tf_shape_at affinity 2;
          score_mask \<leftarrow> tile expanded [1, 1, width];
          let affinity_mask_value =
            (case affinity_mask_value of None \<Rightarrow> neg_inf | Some v \<Rightarrow> v);
          let affinity_mask_values = scalar_mul affinity_mask_value (ones_like affinity);
          tf_where score_mask affinity affinity_mask_values
        })"

subsection \<open>\<open>add_sentinel\<close>, \<open>remove_sentinel\<close>\<close>

text \<open>Both bodies are \<open>pass\<close>: they return Python's \<open>None\<close> and compute nothing.\<close>

definition add_sentinel :: "fl tensor \<Rightarrow> unit" where
  "add_sentinel encoding = ()"

definition remove_sentinel :: "fl tensor \<Rightarrow> unit" where
  "remove_sentinel encoding = ()"

subsection \<open>\<open>coattention\<close>\<close>

text \<open>The local variables of \<open>coattention\<close>, in the order the body assigns them.\<close>

record coattention_locals =
  unmasked_affinity :: "fl tensor"
  affinity :: "fl tensor"
  attention_p :: "fl tensor"
  affinity_t :: "fl tensor"
  attention_q :: "fl tensor"
  summary_q :: "fl tensor"
  summary_d :: "fl tensor"
  coattention_d :: "fl tensor"

definition coattention_body ::
  "fl tensor \<Rightarrow> int tensor \<Rightarrow> fl tensor \<Rightarrow> int tensor \<Rightarrow> bool \<Rightarrow> coattention_locals option" where
  "coattention_body query query_length document document_length sentinel = do {
     unmasked_affinity \<leftarrow> einsum ''ndh,nqh->ndq'' document query;
     affinity \<leftarrow> maybe_mask_affinity unmasked_affinity (Some document_length) None;
     attention_p \<leftarrow> softmax affinity 1;
     transposed \<leftarrow> transpose_tensor unmasked_affinity [0, 2, 1];
     affinity_t \<leftarrow> maybe_mask_affinity transposed (Some query_length) None;
     attention_q \<leftarrow> softmax affinity_t 1;
     summary_q \<leftarrow> einsum ''ndh,ndq->nqh'' document attention_p;
     summary_d \<leftarrow> einsum ''nqh,nqd->ndh'' query attention_q;
     coattention_d \<leftarrow> einsum ''nqh,nqd->ndh'' summary_q attention_q;
     Some \<lparr>unmasked_affinity = unmasked_affinity, affinity = affinity,
           attention_p = attention_p, affinity_t = affinity_t, attention_q = attention_q,
           summary_q = summary_q, summary_d = summary_d, coattention_d = coattention_d\<rparr>
   }"

definition coattention ::
  "fl tensor \<Rightarrow> int tensor \<Rightarrow> fl tensor \<Rightarrow> int tensor \<Rightarrow> bool
     \<Rightarrow> (fl tensor \<times> fl tensor \<times> fl tensor) option" where
  "coattention query query_length document document_length sentinel =
     map_option (\<lambda>l. (summary_q l, summary_d l, coattention_d l))
       (coattention_body query query_length document document_length sentinel)"

subsection \<open>\<open>query_document_encoder\<close>\<close>

text \<open>
  \<open>tf.nn.bidirectional_dynamic_rnn(cell_fw, cell_bw, inputs, sequence_length)\<close> is a
  function of the library: from the two cells (each with its weights), the inputs and the
  lengths it gives the pair of the forward and the backward outputs (its second result,
  the final states, is dropped by every call of the source). It is an argument \<open>rnn\<close> of the
  model.
\<close>

type_synonym 'cell birnn =
  "'cell \<Rightarrow> 'cell \<Rightarrow> fl tensor \<Rightarrow> int tensor \<Rightarrow> (fl tensor \<times> fl tensor) option"

definition query_document_encoder ::
  "'cell birnn \<Rightarrow> dense_vars \<Rightarrow> 'cell \<Rightarrow> 'cell
     \<Rightarrow> fl tensor \<Rightarrow> int tensor \<Rightarrow> fl tensor \<Rightarrow> int tensor
     \<Rightarrow> (fl tensor \<times> fl tensor) option" where
  "query_document_encoder rnn dense_v cell_fw cell_bw query query_length document document_length =
   do {
     (query_fw, query_bw) \<leftarrow> rnn cell_fw cell_bw query query_length;
     query_encoding \<leftarrow> tf_concat [query_fw, query_bw] 2;
     units \<leftarrow> tf_shape_at query_encoding 2;
     query_encoding \<leftarrow> dense dense_v query_encoding (Dynamic units) ftanh;
     (document_fw, document_bw) \<leftarrow> rnn cell_fw cell_bw document document_length;
     document_encoding \<leftarrow> tf_concat [document_fw, document_bw] 2;
     Some (query_encoding, document_encoding)
   }"

subsection \<open>\<open>encode\<close>\<close>

text \<open>
  The trainable variables that \<open>encode\<close> creates, by variable scope: every call of
  \<open>get_cell()\<close> makes a new cell of \<open>state_size\<close> units with weights of its own, and each
  \<open>query_document_encoder\<close> has one dense layer.
\<close>

record 'w lstm_cell =
  num_units :: nat
  weights :: 'w

record 'w encode_vars =
  encoder_fw :: 'w
  encoder_bw :: 'w
  encoder_dense :: dense_vars
  summary_encoder_fw :: 'w
  summary_encoder_bw :: 'w
  summary_encoder_dense :: dense_vars
  final_encoder_fw :: 'w
  final_encoder_bw :: 'w

definition get_cell :: "nat \<Rightarrow> 'w \<Rightarrow> 'w lstm_cell" where
  "get_cell state_size w = \<lparr>num_units = state_size, weights = w\<rparr>"

definition encode ::
  "'w lstm_cell birnn \<Rightarrow> 'w encode_vars \<Rightarrow> nat
     \<Rightarrow> fl tensor \<Rightarrow> int tensor \<Rightarrow> fl tensor \<Rightarrow> int tensor \<Rightarrow> fl tensor option" where
  "encode rnn vars state_size query query_length document document_length = do {
     (query_encoding, document_encoding) \<leftarrow>
        query_document_encoder rnn (encoder_dense vars)
          (get_cell state_size (encoder_fw vars)) (get_cell state_size (encoder_bw vars))
          query query_length document document_length;
     (summary_q_1, summary_d_1, coattention_d_1) \<leftarrow>
        coattention query_encoding query_length document_encoding document_length True;
     (summary_q_encoding, summary_d_encoding) \<leftarrow>
        query_document_encoder rnn (summary_encoder_dense vars)
          (get_cell state_size (summary_encoder_fw vars))
          (get_cell state_size (summary_encoder_bw vars))
          summary_q_1 query_length summary_d_1 document_length;
     (_, summary_d_2, coattention_d_2) \<leftarrow>
        coattention summary_q_encoding query_length summary_d_encoding document_length False;
     let document_representations =
        [document_encoding, summary_d_encoding, summary_d_1, summary_d_2,
         coattention_d_1, coattention_d_2];
     document_representation \<leftarrow> tf_concat document_representations 2;
     (output_fw, output_bw) \<leftarrow>
        rnn (get_cell state_size (final_encoder_fw vars))
            (get_cell state_size (final_encoder_bw vars))
            document_representation document_length;
     tf_concat [output_fw, output_bw] 2
   }"

subsection \<open>\<open>decode\<close>\<close>

record decode_vars =
  decode_start :: dense_vars
  decode_end :: dense_vars

definition decode :: "decode_vars \<Rightarrow> fl tensor \<Rightarrow> (fl tensor \<times> fl tensor) option" where
  "decode vars encoding = do {
     start_logit \<leftarrow> dense (decode_start vars) encoding (Static 1) id;
     let start_logit = squeeze start_logit;
     end_logit \<leftarrow> dense (decode_end vars) encoding (Static 1) id;
     let end_logit = squeeze end_logit;
     Some (start_logit, end_logit)
   }"

section \<open>Binary32 arithmetic\<close>

text \<open>
  The tensors of the program hold 32-bit floating-point numbers. Where the last bits of a
  result matter, an operation is the exact operation followed by rounding to the nearest
  binary32 number, ties to the even significand, with gradual underflow (the spacing of
  the numbers below \<open>2^-126\<close> is \<open>2^-149\<close>) and overflow to an infinity beyond the largest
  finite number.
\<close>

definition round_even :: "real \<Rightarrow> int" where
  "round_even x =
     (let f = \<lfloor>x\<rfloor>; r = x - of_int f
      in if r < 1 / 2 then f else if 1 / 2 < r then f + 1 else if even f then f else f + 1)"

definition ulp32 :: "real \<Rightarrow> real" where
  "ulp32 x = 2 powr (of_int (max \<lfloor>log 2 \<bar>x\<bar>\<rfloor> (- 126)) - 23)"

definition rnd32 :: "real \<Rightarrow> real" where
  "rnd32 x = (if x = 0 then 0 else ulp32 x * of_int (round_even (x / ulp32 x)))"

definition max32 :: real where
  "max32 = (2 ^ 24 - 1) * 2 ^ 104"

definition round_fl :: "fl \<Rightarrow> fl" where
  "round_fl v =
     (case v of
        Fin x \<Rightarrow> if max32 < rnd32 x then PInf else if rnd32 x < - max32 then NInf
                 else Fin (rnd32 x)
      | _ \<Rightarrow> v)"

text \<open>
  The rounded operations. The exponential is taken as correctly rounded, and a sum over an
  axis adds the terms one by one, from the last to the first; the library leaves both to
  its kernels.
\<close>

definition fadd32 :: "fl \<Rightarrow> fl \<Rightarrow> fl" where
  "fadd32 a b = round_fl (fadd a b)"

definition fsub32 :: "fl \<Rightarrow> fl \<Rightarrow> fl" where
  "fsub32 a b = round_fl (fsub a b)"

definition fmul32 :: "fl \<Rightarrow> fl \<Rightarrow> fl" where
  "fmul32 a b = round_fl (fmul a b)"

definition finv32 :: "fl \<Rightarrow> fl" where
  "finv32 a = round_fl (finv a)"

definition fexp32 :: "fl \<Rightarrow> fl" where
  "fexp32 a = round_fl (fexp a)"

definition fsum32 :: "fl list \<Rightarrow> fl" where
  "fsum32 xs = foldr fadd32 xs (Fin 0)"

definition softmax_weight32 :: "fl list \<Rightarrow> fl \<Rightarrow> fl" where
  "softmax_weight32 along x =
     (let m = fmaximum along;
          s = fsum32 (map (\<lambda>y. fexp32 (fsub32 y m)) along)
      in fmul32 (fexp32 (fsub32 x m)) (finv32 s))"

definition softmax32 :: "fl tensor \<Rightarrow> nat \<Rightarrow> fl tensor option" where
  "softmax32 logits axis =
     (if axis < rank logits
      then Some \<lparr>shape = shape logits,
                 elem = (\<lambda>idx. softmax_weight32
                   (map (\<lambda>i. elem logits (idx[axis := i])) [0..<shape logits ! axis])
                   (elem logits idx))\<rparr>
      else None)"

fun sum_over32 :: "(char \<times> nat) list \<Rightarrow> (char \<Rightarrow> nat) \<Rightarrow> ((char \<Rightarrow> nat) \<Rightarrow> fl) \<Rightarrow> fl" where
  "sum_over32 [] env f = f env"
| "sum_over32 ((l, d) # ls) env f = fsum32 (map (\<lambda>i. sum_over32 ls (env(l := i)) f) [0..<d])"

definition einsum32 :: "string \<Rightarrow> fl tensor \<Rightarrow> fl tensor \<Rightarrow> fl tensor option" where
  "einsum32 equation a b =
     (case parse_equation equation of
        None \<Rightarrow> None
      | Some (la, lb, lo) \<Rightarrow>
          let ds = label_dims la (shape a) lb (shape b);
              summed = remdups (filter (\<lambda>l. l \<notin> set lo) (la @ lb))
          in if length la = rank a \<and> length lb = rank b \<and> dims_agree ds
                \<and> distinct lo \<and> set lo \<subseteq> set (la @ lb)
             then Some \<lparr>shape = map (\<lambda>l. the (map_of ds l)) lo,
                        elem = (\<lambda>idx.
                          sum_over32 (map (\<lambda>l. (l, the (map_of ds l))) summed)
                            (bind_labels lo idx)
                            (\<lambda>env. fmul32 (elem a (map env la)) (elem b (map env lb))))\<rparr>
             else None)"

text \<open>\<open>coattention\<close> over binary32: the same graph, each operation rounded.\<close>

definition coattention_body32 ::
  "fl tensor \<Rightarrow> int tensor \<Rightarrow> fl tensor \<Rightarrow> int tensor \<Rightarrow> bool \<Rightarrow> coattention_locals option" where
  "coattention_body32 query query_length document document_length sentinel = do {
     unmasked_affinity \<leftarrow> einsum32 ''ndh,nqh->ndq'' document query;
     affinity \<leftarrow> maybe_mask_affinity unmasked_affinity (Some document_length) None;
     attention_p \<leftarrow> softmax32 affinity 1;
     transposed \<leftarrow> transpose_tensor unmasked_affinity [0, 2, 1];
     affinity_t \<leftarrow> maybe_mask_affinity transposed (Some query_length) None;
     attention_q \<leftarrow> softmax32 affinity_t 1;
     summary_q \<leftarrow> einsum32 ''ndh,ndq->nqh'' document attention_p;
     summary_d \<leftarrow> einsum32 ''nqh,nqd->ndh'' query attention_q;
     coattention_d \<leftarrow> einsum32 ''nqh,nqd->ndh'' summary_q attention_q;
     Some \<lparr>unmasked_affinity = unmasked_affinity, affinity = affinity,
           attention_p = attention_p, affinity_t = affinity_t, attention_q = attention_q,
           summary_q = summary_q, summary_d = summary_d, coattention_d = coattention_d\<rparr>
   }"

section \<open>Auxiliary notions for the proofs\<close>

text \<open>
  A logit of a masked tensor built from finite entries is either finite or the mask value
  \<open>-inf\<close>. For such a logit \<open>x\<close> and a finite maximum \<open>m\<close>, \<open>shifted_exp m x\<close> is the real
  number \<open>exp (x - m)\<close> that the softmax computes.
\<close>

definition unmasked_or_masked :: "fl \<Rightarrow> bool" where
  "unmasked_or_masked x = (case x of Fin r \<Rightarrow> True | NInf \<Rightarrow> True | _ \<Rightarrow> False)"

definition shifted_exp :: "real \<Rightarrow> fl \<Rightarrow> real" where
  "shifted_exp m x = (case x of Fin r \<Rightarrow> exp (r - m) | _ \<Rightarrow> 0)"

text \<open>
  The binary32 counterpart of \<open>shifted_exp\<close>, the sum of a list of reals with every partial
  sum rounded, and the column \<open>t[n, :, j]\<close> of a tensor that a softmax over axis 1 normalises.
\<close>

definition e32 :: "real \<Rightarrow> fl \<Rightarrow> real" where
  "e32 m x =
     (case x of
        Fin r \<Rightarrow> if rnd32 (r - m) < - max32 then 0 else rnd32 (exp (rnd32 (r - m)))
      | _ \<Rightarrow> 0)"

definition rsum32 :: "real list \<Rightarrow> real" where
  "rsum32 es = foldr (\<lambda>x s. rnd32 (x + s)) es 0"

definition column :: "nat \<Rightarrow> nat \<Rightarrow> nat \<Rightarrow> fl tensor \<Rightarrow> fl list" where
  "column n L j t = map (\<lambda>i. elem t [n, i, j]) [0..<L]"

section \<open>Properties of the tensor operations\<close>

lemma fmul_one: "fmul v (Fin 1) = v"
  by (cases v) (simp_all add: inf_times_def)

lemma einsum_ndh_nqh_ndq:
  assumes "shape a = [N, D, H]" "shape b = [N, Q, H]"
  shows "\<exists>t. einsum ''ndh,nqh->ndq'' a b = Some t \<and> shape t = [N, D, Q]
     \<and> (\<forall>n d q. elem t [n, d, q] =
          fsum (map (\<lambda>h. fmul (elem a [n, d, h]) (elem b [n, q, h])) [0..<H]))"
  using assms
  by (simp add: einsum_def parse_equation_def label_dims_def dims_agree_def rank_def
      bind_labels_def)

lemma einsum_ndh_ndq_nqh:
  assumes "shape a = [N, D, H]" "shape b = [N, D, Q]"
  shows "\<exists>t. einsum ''ndh,ndq->nqh'' a b = Some t \<and> shape t = [N, Q, H]
     \<and> (\<forall>n q h. elem t [n, q, h] =
          fsum (map (\<lambda>d. fmul (elem a [n, d, h]) (elem b [n, d, q])) [0..<D]))"
  using assms
  by (simp add: einsum_def parse_equation_def label_dims_def dims_agree_def rank_def
      bind_labels_def)

lemma einsum_nqh_nqd_ndh:
  assumes "shape a = [N, Q, H]" "shape b = [N, Q, D]"
  shows "\<exists>t. einsum ''nqh,nqd->ndh'' a b = Some t \<and> shape t = [N, D, H]
     \<and> (\<forall>n d h. elem t [n, d, h] =
          fsum (map (\<lambda>q. fmul (elem a [n, q, h]) (elem b [n, q, d])) [0..<Q]))"
  using assms
  by (simp add: einsum_def parse_equation_def label_dims_def dims_agree_def rank_def
      bind_labels_def)

lemma mask_some:
  assumes "shape a = [N, L1, L2]" "shape len = [N]"
  shows "\<exists>m. maybe_mask_affinity a (Some len) v = Some m \<and> shape m = [N, L1, L2]
     \<and> (\<forall>n i j. n < N \<longrightarrow> i < L1 \<longrightarrow>
           elem m [n, i, j] =
             (if int i < elem len [n] then elem a [n, i, j]
              else (case v of None \<Rightarrow> NInf | Some w \<Rightarrow> w)))"
  using assms
  by (cases v)
     (simp_all add: maybe_mask_affinity_def tf_shape_at_def rank_def sequence_mask_def
      expand_dims_def tile_def scalar_mul_def ones_like_def tf_where_def fmul_one neg_inf_def)

lemma transpose_021:
  assumes "shape a = [N, D, Q]"
  shows "\<exists>t. transpose_tensor a [0, 2, 1] = Some t \<and> shape t = [N, Q, D]
      \<and> (\<forall>n q d. elem t [n, q, d] = elem a [n, d, q])"
  using assms by (simp add: transpose_tensor_def rank_def upt_rec)

lemma softmax_axis1:
  assumes "shape a = [N, D, Q]"
  shows "\<exists>t. softmax a 1 = Some t \<and> shape t = [N, D, Q]
      \<and> (\<forall>n d q. elem t [n, d, q] =
            softmax_weight (map (\<lambda>i. elem a [n, i, q]) [0..<D]) (elem a [n, d, q]))"
  using assms by (simp add: softmax_def rank_def)


lemma fmaximum_Cons: "fmaximum (x # xs) = fmax x (fmaximum xs)"
  by (simp add: fmaximum_def)

lemma fsum_Cons: "fsum (x # xs) = fadd x (fsum xs)"
  by (simp add: fsum_def)

lemma fsum_Nil: "fsum [] = Fin 0"
  by (simp add: fsum_def)

lemma fmaximum_all_masked: "\<forall>x\<in>set xs. x = NInf \<Longrightarrow> fmaximum xs = NInf"
  by (induction xs) (simp_all add: fmaximum_def)

lemma fmaximum_range:
  "list_all unmasked_or_masked xs \<Longrightarrow> unmasked_or_masked (fmaximum xs)"
proof (induction xs)
  case Nil
  then show ?case by (simp add: fmaximum_def unmasked_or_masked_def)
next
  case (Cons x xs)
  then show ?case
    by (cases x; cases "fmaximum xs") (simp_all add: fmaximum_Cons unmasked_or_masked_def)
qed

lemma fmaximum_finite:
  "list_all unmasked_or_masked xs \<Longrightarrow> Fin r \<in> set xs \<Longrightarrow> \<exists>m. fmaximum xs = Fin m"
proof (induction xs)
  case Nil
  then show ?case by simp
next
  case (Cons x xs)
  have "unmasked_or_masked (fmaximum xs)"
    using Cons.prems(1) by (simp add: fmaximum_range)
  moreover have "unmasked_or_masked x" using Cons.prems(1) by simp
  ultimately show ?case
    using Cons
    by (cases x; cases "fmaximum xs") (auto simp: fmaximum_Cons unmasked_or_masked_def)
qed

lemma fexp_shifted:
  "unmasked_or_masked x \<Longrightarrow> fexp (fsub x (Fin m)) = Fin (shifted_exp m x)"
  by (cases x) (simp_all add: unmasked_or_masked_def fsub_def shifted_exp_def)

lemma fsum_Fin: "fsum (map (\<lambda>x. Fin (g x)) xs) = Fin (sum_list (map g xs))"
  by (induction xs) (simp_all add: fsum_Cons fsum_Nil)

lemma fsum_shifted:
  "list_all unmasked_or_masked xs \<Longrightarrow>
     fsum (map (\<lambda>y. fexp (fsub y (Fin m))) xs) = Fin (sum_list (map (shifted_exp m) xs))"
proof -
  assume a: "list_all unmasked_or_masked xs"
  have eq: "map (\<lambda>y. fexp (fsub y (Fin m))) xs = map (\<lambda>y. Fin (shifted_exp m y)) xs"
    using a by (simp add: list_all_iff fexp_shifted)
  show ?thesis unfolding eq by (rule fsum_Fin)
qed

lemma shifted_exp_nonneg: "0 \<le> shifted_exp m x"
  by (cases x) (simp_all add: shifted_exp_def)

lemma sum_shifted_nonneg: "0 \<le> sum_list (map (shifted_exp m) xs)"
  by (induction xs) (simp_all add: shifted_exp_nonneg)

lemma sum_shifted_pos: "Fin r \<in> set xs \<Longrightarrow> 0 < sum_list (map (shifted_exp m) xs)"
proof (induction xs)
  case Nil
  then show ?case by simp
next
  case (Cons x xs)
  show ?case
  proof (cases "x = Fin r")
    case True
    have "0 < shifted_exp m x" using True by (simp add: shifted_exp_def)
    then show ?thesis using sum_shifted_nonneg [of m xs] by simp
  next
    case False
    then have "0 < sum_list (map (shifted_exp m) xs)" using Cons by simp
    then show ?thesis using shifted_exp_nonneg [of m x] by simp
  qed
qed



lemma sum_list_div_const:
  "sum_list (map (\<lambda>x. g x / c) xs) = sum_list (map g xs) / (c::real)"
  by (induction xs) (simp_all add: add_divide_distrib)

lemma softmax_weights_sum:
  assumes "list_all unmasked_or_masked xs" "Fin r \<in> set xs"
  shows "fsum (map (softmax_weight xs) xs) = Fin 1"
proof -
  obtain m where m: "fmaximum xs = Fin m"
    using fmaximum_finite [OF assms] by blast
  let ?S = "sum_list (map (shifted_exp m) xs)"
  have pos: "0 < ?S" using assms(2) by (rule sum_shifted_pos)
  have w: "softmax_weight xs x = Fin (shifted_exp m x / ?S)" if "x \<in> set xs" for x
  proof -
    have "unmasked_or_masked x" using assms(1) that by (simp add: list_all_iff)
    then show ?thesis
      using pos by (simp add: softmax_weight_def m fsum_shifted [OF assms(1)] fexp_shifted)
  qed
  have eq: "map (softmax_weight xs) xs = map (\<lambda>x. Fin (shifted_exp m x / ?S)) xs"
    using w by simp
  have "fsum (map (softmax_weight xs) xs) = Fin (sum_list (map (\<lambda>x. shifted_exp m x / ?S) xs))"
    unfolding eq by (rule fsum_Fin)
  also have "sum_list (map (\<lambda>x. shifted_exp m x / ?S) xs) = ?S / ?S"
    by (rule sum_list_div_const)
  also have "?S / ?S = 1" using pos by simp
  finally show ?thesis .
qed

lemma softmax_weight_all_masked:
  assumes "\<forall>y\<in>set xs. y = NInf"
  shows "softmax_weight xs NInf = NaN"
  by (simp add: softmax_weight_def fmaximum_all_masked [OF assms] fsub_def)

lemma fsum_NaN: "NaN \<in> set xs \<Longrightarrow> fsum xs = NaN"
proof (induction xs)
  case Nil
  then show ?case by simp
next
  case (Cons x xs)
  then show ?case by (cases x) (auto simp: fsum_Cons)
qed

lemma fmul_NaN_right: "fmul x NaN = NaN"
  by (cases x) simp_all


lemma coattention_body_unfold:
  assumes q: "shape query = [N, Q, H]" and d: "shape document = [N, D, H]"
    and ql: "shape query_length = [N]" and dl: "shape document_length = [N]"
  obtains l where
    "coattention_body query query_length document document_length sentinel = Some l"
    "\<And>n d q. elem (unmasked_affinity l) [n, d, q] =
        fsum (map (\<lambda>h. fmul (elem document [n, d, h]) (elem query [n, q, h])) [0..<H])"
    "\<And>n d q. n < N \<Longrightarrow> d < D \<Longrightarrow> elem (affinity l) [n, d, q] =
        (if int d < elem document_length [n] then elem (unmasked_affinity l) [n, d, q] else NInf)"
    "\<And>n d q. elem (attention_p l) [n, d, q] =
        softmax_weight (map (\<lambda>i. elem (affinity l) [n, i, q]) [0..<D]) (elem (affinity l) [n, d, q])"
    "\<And>n q d. n < N \<Longrightarrow> q < Q \<Longrightarrow> elem (affinity_t l) [n, q, d] =
        (if int q < elem query_length [n] then elem (unmasked_affinity l) [n, d, q] else NInf)"
    "\<And>n q d. elem (attention_q l) [n, q, d] =
        softmax_weight (map (\<lambda>i. elem (affinity_t l) [n, i, d]) [0..<Q]) (elem (affinity_t l) [n, q, d])"
    "\<And>n q h. elem (summary_q l) [n, q, h] =
        fsum (map (\<lambda>d. fmul (elem document [n, d, h]) (elem (attention_p l) [n, d, q])) [0..<D])"
    "\<And>n d h. elem (summary_d l) [n, d, h] =
        fsum (map (\<lambda>q. fmul (elem query [n, q, h]) (elem (attention_q l) [n, q, d])) [0..<Q])"
    "\<And>n d h. elem (coattention_d l) [n, d, h] =
        fsum (map (\<lambda>q. fmul (elem (summary_q l) [n, q, h]) (elem (attention_q l) [n, q, d])) [0..<Q])"
    "shape (attention_p l) = [N, D, Q]" "shape (attention_q l) = [N, Q, D]"
    "shape (summary_q l) = [N, Q, H]" "shape (summary_d l) = [N, D, H]"
    "shape (coattention_d l) = [N, D, H]"
proof -
  obtain ua where ua: "einsum ''ndh,nqh->ndq'' document query = Some ua" "shape ua = [N, D, Q]"
    "\<And>n d q. elem ua [n, d, q] =
        fsum (map (\<lambda>h. fmul (elem document [n, d, h]) (elem query [n, q, h])) [0..<H])"
    using einsum_ndh_nqh_ndq [OF d q] by blast
  obtain af where af: "maybe_mask_affinity ua (Some document_length) None = Some af"
    "shape af = [N, D, Q]"
    "\<And>n d q. n < N \<Longrightarrow> d < D \<Longrightarrow> elem af [n, d, q] =
        (if int d < elem document_length [n] then elem ua [n, d, q] else NInf)"
    using mask_some [OF ua(2) dl, of None] by auto
  obtain ap where ap: "softmax af 1 = Some ap" "shape ap = [N, D, Q]"
    "\<And>n d q. elem ap [n, d, q] =
        softmax_weight (map (\<lambda>i. elem af [n, i, q]) [0..<D]) (elem af [n, d, q])"
    using softmax_axis1 [OF af(2)] by blast
  obtain tr where tr: "transpose_tensor ua [0, 2, 1] = Some tr" "shape tr = [N, Q, D]"
    "\<And>n q d. elem tr [n, q, d] = elem ua [n, d, q]"
    using transpose_021 [OF ua(2)] by blast
  obtain aft where aft: "maybe_mask_affinity tr (Some query_length) None = Some aft"
    "shape aft = [N, Q, D]"
    "\<And>n q d. n < N \<Longrightarrow> q < Q \<Longrightarrow> elem aft [n, q, d] =
        (if int q < elem query_length [n] then elem tr [n, q, d] else NInf)"
    using mask_some [OF tr(2) ql, of None] by auto
  obtain aq where aq: "softmax aft 1 = Some aq" "shape aq = [N, Q, D]"
    "\<And>n q d. elem aq [n, q, d] =
        softmax_weight (map (\<lambda>i. elem aft [n, i, d]) [0..<Q]) (elem aft [n, q, d])"
    using softmax_axis1 [OF aft(2)] by blast
  obtain sq where sq: "einsum ''ndh,ndq->nqh'' document ap = Some sq" "shape sq = [N, Q, H]"
    "\<And>n q h. elem sq [n, q, h] =
        fsum (map (\<lambda>d. fmul (elem document [n, d, h]) (elem ap [n, d, q])) [0..<D])"
    using einsum_ndh_ndq_nqh [OF d ap(2)] by blast
  obtain sd where sd: "einsum ''nqh,nqd->ndh'' query aq = Some sd" "shape sd = [N, D, H]"
    "\<And>n d h. elem sd [n, d, h] =
        fsum (map (\<lambda>q. fmul (elem query [n, q, h]) (elem aq [n, q, d])) [0..<Q])"
    using einsum_nqh_nqd_ndh [OF q aq(2)] by blast
  obtain cd where cd: "einsum ''nqh,nqd->ndh'' sq aq = Some cd" "shape cd = [N, D, H]"
    "\<And>n d h. elem cd [n, d, h] =
        fsum (map (\<lambda>q. fmul (elem sq [n, q, h]) (elem aq [n, q, d])) [0..<Q])"
    using einsum_nqh_nqd_ndh [OF sq(2) aq(2)] by blast
  let ?l = "\<lparr>unmasked_affinity = ua, affinity = af, attention_p = ap, affinity_t = aft,
             attention_q = aq, summary_q = sq, summary_d = sd, coattention_d = cd\<rparr>"
  have body: "coattention_body query query_length document document_length sentinel = Some ?l"
    unfolding coattention_body_def
    by (simp only: ua(1) af(1) ap(1) tr(1) aft(1) aq(1) sq(1) sd(1) cd(1) bind.bind_lunit)
  show thesis
    by (rule that [of ?l]) (simp_all add: body ua af ap tr aft aq sq sd cd)
qed

lemma shape_of_real_tensor [simp]: "shape (of_real_tensor t) = shape t"
  by (simp add: of_real_tensor_def)

lemma elem_of_real_tensor [simp]: "elem (of_real_tensor t) idx = Fin (elem t idx)"
  by (simp add: of_real_tensor_def)

lemma shape_fill [simp]: "shape (fill sh v) = sh"
  by (simp add: fill_def)

lemma elem_fill [simp]: "elem (fill sh v) idx = v"
  by (simp add: fill_def)

lemma fsum_products_finite:
  "fsum (map (\<lambda>h. fmul (Fin (f h)) (Fin (g h))) hs) = Fin (sum_list (map (\<lambda>h. f h * g h) hs))"
  by (induction hs) (simp_all add: fsum_Cons fsum_Nil)

lemma masked_column:
  assumes "\<And>i. i < D \<Longrightarrow> col i = (if int i < L then Fin (g i) else NInf)"
  shows "list_all unmasked_or_masked (map col [0..<D])"
    and "1 \<le> L \<Longrightarrow> 0 < D \<Longrightarrow> Fin (g 0) \<in> set (map col [0..<D])"
proof -
  have "unmasked_or_masked (col i)" if "i < D" for i
    using assms [OF that] by (simp add: unmasked_or_masked_def)
  then show "list_all unmasked_or_masked (map col [0..<D])"
    by (auto simp: list_all_iff)
  assume "1 \<le> L" "0 < D"
  then have "col 0 = Fin (g 0)" using assms [of 0] by simp
  then show "Fin (g 0) \<in> set (map col [0..<D])"
    using \<open>0 < D\<close> by (auto intro!: image_eqI [where x = 0])
qed

lemma coattention_body_total:
  assumes "shape query = [N, Q, H]" and "shape document = [N, D, H]"
    and "shape query_length = [N]" and "shape document_length = [N]"
  shows "\<exists>l. coattention_body query query_length document document_length sentinel = Some l"
  by (rule coattention_body_unfold [OF assms, where sentinel = sentinel]) blast

lemma coattention_body_facts:
  assumes "shape query = [N, Q, H]" and "shape document = [N, D, H]"
    and "shape query_length = [N]" and "shape document_length = [N]"
    and body: "coattention_body query query_length document document_length sentinel = Some l"
  shows "elem (unmasked_affinity l) [n, d, q] =
        fsum (map (\<lambda>h. fmul (elem document [n, d, h]) (elem query [n, q, h])) [0..<H])"
    and "n < N \<Longrightarrow> d < D \<Longrightarrow> elem (affinity l) [n, d, q] =
        (if int d < elem document_length [n] then elem (unmasked_affinity l) [n, d, q] else NInf)"
    and "elem (attention_p l) [n, d, q] =
        softmax_weight (map (\<lambda>i. elem (affinity l) [n, i, q]) [0..<D]) (elem (affinity l) [n, d, q])"
    and "n < N \<Longrightarrow> q < Q \<Longrightarrow> elem (affinity_t l) [n, q, d] =
        (if int q < elem query_length [n] then elem (unmasked_affinity l) [n, d, q] else NInf)"
    and "elem (attention_q l) [n, q, d] =
        softmax_weight (map (\<lambda>i. elem (affinity_t l) [n, i, d]) [0..<Q]) (elem (affinity_t l) [n, q, d])"
    and "elem (summary_q l) [n, q, h] =
        fsum (map (\<lambda>d. fmul (elem document [n, d, h]) (elem (attention_p l) [n, d, q])) [0..<D])"
    and "elem (summary_d l) [n, d, h] =
        fsum (map (\<lambda>q. fmul (elem query [n, q, h]) (elem (attention_q l) [n, q, d])) [0..<Q])"
    and "elem (coattention_d l) [n, d, h] =
        fsum (map (\<lambda>q. fmul (elem (summary_q l) [n, q, h]) (elem (attention_q l) [n, q, d])) [0..<Q])"
    and "shape (attention_p l) = [N, D, Q]" and "shape (attention_q l) = [N, Q, D]"
    and "shape (summary_q l) = [N, Q, H]" and "shape (summary_d l) = [N, D, H]"
    and "shape (coattention_d l) = [N, D, H]"
  by (rule coattention_body_unfold [OF assms(1-4), where sentinel = sentinel]; use body in simp)+


lemma document_logits_column:
  assumes "shape query = [N, Q, H]" and "shape document = [N, D, H]"
    and "shape query_length = [N]" and "shape document_length = [N]"
    and body: "coattention_body (of_real_tensor query) query_length (of_real_tensor document)
                 document_length sentinel = Some l"
    and n: "n < N"
  shows "list_all unmasked_or_masked (map (\<lambda>i. elem (affinity l) [n, i, q]) [0..<D])"
    and "1 \<le> elem document_length [n] \<Longrightarrow> 0 < D \<Longrightarrow>
           \<exists>r. Fin r \<in> set (map (\<lambda>i. elem (affinity l) [n, i, q]) [0..<D])"
proof -
  note f = coattention_body_facts [of "of_real_tensor query" N Q H "of_real_tensor document" D
      query_length document_length sentinel l, simplified, OF assms(1-4) body]
  let ?g = "\<lambda>i. sum_list (map (\<lambda>h. elem document [n, i, h] * elem query [n, q, h]) [0..<H])"
  have col: "elem (affinity l) [n, i, q] =
      (if int i < elem document_length [n] then Fin (?g i) else NInf)" if "i < D" for i
    using f(2) [OF n that, of q] by (simp add: f(1) fsum_Fin)
  show "list_all unmasked_or_masked (map (\<lambda>i. elem (affinity l) [n, i, q]) [0..<D])"
    using col by (rule masked_column(1))
  show "\<exists>r. Fin r \<in> set (map (\<lambda>i. elem (affinity l) [n, i, q]) [0..<D])"
    if "1 \<le> elem document_length [n]" "0 < D"
    using masked_column(2) [of D "\<lambda>i. elem (affinity l) [n, i, q]" "elem document_length [n]" ?g,
        OF col that] by blast
qed

lemma query_logits_column:
  assumes "shape query = [N, Q, H]" and "shape document = [N, D, H]"
    and "shape query_length = [N]" and "shape document_length = [N]"
    and body: "coattention_body (of_real_tensor query) query_length (of_real_tensor document)
                 document_length sentinel = Some l"
    and n: "n < N"
  shows "list_all unmasked_or_masked (map (\<lambda>i. elem (affinity_t l) [n, i, d]) [0..<Q])"
    and "1 \<le> elem query_length [n] \<Longrightarrow> 0 < Q \<Longrightarrow>
           \<exists>r. Fin r \<in> set (map (\<lambda>i. elem (affinity_t l) [n, i, d]) [0..<Q])"
proof -
  note f = coattention_body_facts [of "of_real_tensor query" N Q H "of_real_tensor document" D
      query_length document_length sentinel l, simplified, OF assms(1-4) body]
  let ?g = "\<lambda>i. sum_list (map (\<lambda>h. elem document [n, d, h] * elem query [n, i, h]) [0..<H])"
  have col: "elem (affinity_t l) [n, i, d] =
      (if int i < elem query_length [n] then Fin (?g i) else NInf)" if "i < Q" for i
    using f(4) [OF n that, of d] by (simp add: f(1) fsum_Fin)
  show "list_all unmasked_or_masked (map (\<lambda>i. elem (affinity_t l) [n, i, d]) [0..<Q])"
    using col by (rule masked_column(1))
  show "\<exists>r. Fin r \<in> set (map (\<lambda>i. elem (affinity_t l) [n, i, d]) [0..<Q])"
    if "1 \<le> elem query_length [n]" "0 < Q"
    using masked_column(2) [of Q "\<lambda>i. elem (affinity_t l) [n, i, d]" "elem query_length [n]" ?g,
        OF col that] by blast
qed

lemma coattention_body_SomeD:
  assumes "coattention_body query query_length document document_length sentinel = Some l"
  shows "einsum ''ndh,nqh->ndq'' document query = Some (unmasked_affinity l)"
    and "maybe_mask_affinity (unmasked_affinity l) (Some document_length) None = Some (affinity l)"
    and "softmax (affinity l) 1 = Some (attention_p l)"
    and "\<exists>t. transpose_tensor (unmasked_affinity l) [0, 2, 1] = Some t
           \<and> maybe_mask_affinity t (Some query_length) None = Some (affinity_t l)"
    and "softmax (affinity_t l) 1 = Some (attention_q l)"
    and "einsum ''ndh,ndq->nqh'' document (attention_p l) = Some (summary_q l)"
    and "einsum ''nqh,nqd->ndh'' query (attention_q l) = Some (summary_d l)"
    and "einsum ''nqh,nqd->ndh'' (summary_q l) (attention_q l) = Some (coattention_d l)"
  using assms by (auto simp: coattention_body_def split: bind_splits)

lemma attention_p_determined:
  assumes "coattention_body query query_length document document_length sentinel = Some l"
    and "coattention_body query query_length' document document_length sentinel' = Some l'"
  shows "attention_p l' = attention_p l" and "summary_q l' = summary_q l"
proof -
  note a = coattention_body_SomeD [OF assms(1)] and b = coattention_body_SomeD [OF assms(2)]
  have "unmasked_affinity l' = unmasked_affinity l" using a(1) b(1) by simp
  then have "affinity l' = affinity l" using a(2) b(2) by simp
  then show p: "attention_p l' = attention_p l" using a(3) b(3) by simp
  show "summary_q l' = summary_q l" using a(6) b(6) p by simp
qed

lemma attention_q_determined:
  assumes "coattention_body query query_length document document_length sentinel = Some l"
    and "coattention_body query query_length document document_length' sentinel' = Some l'"
  shows "attention_q l' = attention_q l" and "summary_d l' = summary_d l"
proof -
  note a = coattention_body_SomeD [OF assms(1)] and b = coattention_body_SomeD [OF assms(2)]
  have "unmasked_affinity l' = unmasked_affinity l" using a(1) b(1) by simp
  then have "affinity_t l' = affinity_t l" using a(4) b(4) by auto
  then show q: "attention_q l' = attention_q l" using a(5) b(5) by simp
  show "summary_d l' = summary_d l" using a(7) b(7) q by simp
qed

lemma attention_p_column_sum:
  assumes "shape query = [N, Q, H]" and "shape document = [N, D, H]"
    and "shape query_length = [N]" and "shape document_length = [N]"
    and body: "coattention_body (of_real_tensor query) query_length (of_real_tensor document)
                 document_length sentinel = Some l"
    and "n < N" and "1 \<le> elem document_length [n]" and "0 < D"
  shows "fsum (map (\<lambda>d. elem (attention_p l) [n, d, q]) [0..<D]) = Fin 1"
proof -
  note f = coattention_body_facts [of "of_real_tensor query" N Q H "of_real_tensor document" D
      query_length document_length sentinel l, simplified, OF assms(1-4) body]
  let ?col = "map (\<lambda>i. elem (affinity l) [n, i, q]) [0..<D]"
  note c = document_logits_column [OF assms(1-4) body \<open>n < N\<close>, of q]
  from c(2) [OF assms(7,8)] obtain r where r: "Fin r \<in> set ?col" ..
  have eq: "map (\<lambda>d. elem (attention_p l) [n, d, q]) [0..<D] = map (softmax_weight ?col) ?col"
    by (simp add: f(3))
  show ?thesis unfolding eq by (rule softmax_weights_sum [OF c(1) r])
qed

lemma attention_q_column_sum:
  assumes "shape query = [N, Q, H]" and "shape document = [N, D, H]"
    and "shape query_length = [N]" and "shape document_length = [N]"
    and body: "coattention_body (of_real_tensor query) query_length (of_real_tensor document)
                 document_length sentinel = Some l"
    and "n < N" and "1 \<le> elem query_length [n]" and "0 < Q"
  shows "fsum (map (\<lambda>q. elem (attention_q l) [n, q, d]) [0..<Q]) = Fin 1"
proof -
  note f = coattention_body_facts [of "of_real_tensor query" N Q H "of_real_tensor document" D
      query_length document_length sentinel l, simplified, OF assms(1-4) body]
  let ?col = "map (\<lambda>i. elem (affinity_t l) [n, i, d]) [0..<Q]"
  note c = query_logits_column [OF assms(1-4) body \<open>n < N\<close>, of d]
  from c(2) [OF assms(7,8)] obtain r where r: "Fin r \<in> set ?col" ..
  have eq: "map (\<lambda>q. elem (attention_q l) [n, q, d]) [0..<Q] = map (softmax_weight ?col) ?col"
    by (simp add: f(5))
  show ?thesis unfolding eq by (rule softmax_weights_sum [OF c(1) r])
qed

lemma padded_summary_q_example:
  "\<exists>l. coattention_body (of_real_tensor (fill [1, 1, 1] 0)) (fill [1] 0)
          (of_real_tensor (fill [1, 1, 1] 1)) (fill [1] 1) False = Some l
      \<and> elem (summary_q l) [0, 0, 0] = Fin 1"
proof -
  have h: "shape (of_real_tensor (fill [1, 1, 1] 0)) = [1, 1, 1]"
    "shape (of_real_tensor (fill [1, 1, 1] 1)) = [1, 1, 1]"
    "shape (fill [1] (0::int)) = [1]" "shape (fill [1] (1::int)) = [1]"
    by simp_all
  obtain l where body: "coattention_body (of_real_tensor (fill [1, 1, 1] 0)) (fill [1] 0)
      (of_real_tensor (fill [1, 1, 1] 1)) (fill [1] 1) False = Some l"
    using coattention_body_total [OF h] by blast
  note f = coattention_body_facts [OF h body]
  have ua: "elem (unmasked_affinity l) [0, 0, 0] = Fin 0"
    by (simp add: f(1) fsum_def)
  have af: "elem (affinity l) [0, 0, 0] = Fin 0"
    using f(2) [of 0 0 0] ua by simp
  have ap: "elem (attention_p l) [0, 0, 0] = Fin 1"
    by (simp add: f(3) af softmax_weight_def fmaximum_def fsum_def fsub_def)
  have "elem (summary_q l) [0, 0, 0] = Fin 1"
    by (simp add: f(6) ap fsum_def)
  with body show ?thesis by blast
qed

lemma padded_summary_d_example:
  "\<exists>l. coattention_body (of_real_tensor (fill [1, 1, 1] 1)) (fill [1] 1)
          (of_real_tensor (fill [1, 1, 1] 0)) (fill [1] 0) False = Some l
      \<and> elem (summary_d l) [0, 0, 0] = Fin 1"
proof -
  have h: "shape (of_real_tensor (fill [1, 1, 1] 1)) = [1, 1, 1]"
    "shape (of_real_tensor (fill [1, 1, 1] 0)) = [1, 1, 1]"
    "shape (fill [1] (1::int)) = [1]" "shape (fill [1] (0::int)) = [1]"
    by simp_all
  obtain l where body: "coattention_body (of_real_tensor (fill [1, 1, 1] 1)) (fill [1] 1)
      (of_real_tensor (fill [1, 1, 1] 0)) (fill [1] 0) False = Some l"
    using coattention_body_total [OF h] by blast
  note f = coattention_body_facts [OF h body]
  have ua: "elem (unmasked_affinity l) [0, 0, 0] = Fin 0"
    by (simp add: f(1) fsum_def)
  have af: "elem (affinity_t l) [0, 0, 0] = Fin 0"
    using f(4) [of 0 0 0] ua by simp
  have aq: "elem (attention_q l) [0, 0, 0] = Fin 1"
    by (simp add: f(5) af softmax_weight_def fmaximum_def fsum_def fsub_def)
  have "elem (summary_d l) [0, 0, 0] = Fin 1"
    by (simp add: f(7) aq fsum_def)
  with body show ?thesis by blast
qed

subsection \<open>Rounding to binary32\<close>

lemma round_even_error: "\<bar>of_int (round_even t) - t\<bar> \<le> 1 / 2"
proof -
  define f where "f = \<lfloor>t\<rfloor>"
  have a: "of_int f \<le> t" "t < of_int f + 1" unfolding f_def by linarith+
  have "\<bar>of_int (if t - of_int f < 1 / 2 then f else if 1 / 2 < t - of_int f then f + 1
                   else if even f then f else f + 1) - t\<bar> \<le> 1 / 2"
    using a by (auto simp: abs_if)
  then show ?thesis unfolding round_even_def Let_def f_def .
qed

lemma round_even_nonneg: "0 \<le> t \<Longrightarrow> 0 \<le> round_even t"
proof -
  assume "0 \<le> t"
  then have "0 \<le> \<lfloor>t\<rfloor>" by simp
  then show ?thesis unfolding round_even_def Let_def by auto
qed

lemma round_even_nonpos: "t \<le> 0 \<Longrightarrow> round_even t \<le> 0"
proof -
  assume a: "t \<le> 0"
  then have f: "\<lfloor>t\<rfloor> \<le> 0" by (simp add: floor_le_iff)
  have g: "of_int \<lfloor>t\<rfloor> \<le> t" by linarith
  show ?thesis
  proof (cases "\<lfloor>t\<rfloor> = 0")
    case True
    then have "t - of_int \<lfloor>t\<rfloor> \<le> 0" using a by simp
    then show ?thesis unfolding round_even_def Let_def using True by auto
  next
    case False
    then have "\<lfloor>t\<rfloor> + 1 \<le> 0" using f by linarith
    then show ?thesis unfolding round_even_def Let_def using f by auto
  qed
qed

lemma ulp32_pos: "0 < ulp32 x"
  by (simp add: ulp32_def)

lemma rnd32_zero [simp]: "rnd32 0 = 0"
  by (simp add: rnd32_def)

lemma rnd32_nonneg: "0 \<le> x \<Longrightarrow> 0 \<le> rnd32 x"
  using ulp32_pos [of x] by (simp add: rnd32_def round_even_nonneg)

lemma rnd32_nonpos: "x \<le> 0 \<Longrightarrow> rnd32 x \<le> 0"
  using ulp32_pos [of x]
  by (simp add: rnd32_def round_even_nonpos mult_le_0_iff divide_le_0_iff)

lemma rnd32_half_ulp: "\<bar>rnd32 x - x\<bar> \<le> ulp32 x / 2"
proof (cases "x = 0")
  case True
  then show ?thesis using ulp32_pos [of 0] by simp
next
  case False
  have p: "0 < ulp32 x" by (rule ulp32_pos)
  have "rnd32 x - x = ulp32 x * (of_int (round_even (x / ulp32 x)) - x / ulp32 x)"
    using False p by (simp add: rnd32_def algebra_simps)
  then have "\<bar>rnd32 x - x\<bar> = ulp32 x * \<bar>of_int (round_even (x / ulp32 x)) - x / ulp32 x\<bar>"
    using p by (simp add: abs_mult)
  also have "\<dots> \<le> ulp32 x * (1 / 2)"
    using p round_even_error [of "x / ulp32 x"] by (intro mult_left_mono) simp_all
  finally show ?thesis by simp
qed

lemma ulp32_normal:
  assumes "2 powr (- 126) \<le> \<bar>x\<bar>"
  shows "ulp32 x \<le> \<bar>x\<bar> / 2 ^ 23"
proof -
  have x: "0 < \<bar>x\<bar>" using assms by (smt (verit) powr_gt_zero)
  have "- 126 \<le> log 2 \<bar>x\<bar>"
    using assms x by (simp add: le_log_iff)
  then have f: "(- 126::int) \<le> \<lfloor>log 2 \<bar>x\<bar>\<rfloor>" by (simp add: le_floor_iff)
  have m: "max \<lfloor>log 2 \<bar>x\<bar>\<rfloor> (- 126) = \<lfloor>log 2 \<bar>x\<bar>\<rfloor>"
    using f by (rule max_absorb1)
  have "ulp32 x = 2 powr (of_int \<lfloor>log 2 \<bar>x\<bar>\<rfloor> - 23)"
    unfolding ulp32_def m ..
  also have "\<dots> \<le> 2 powr (log 2 \<bar>x\<bar> - 23)"
    by (intro powr_mono) simp_all
  also have "\<dots> = \<bar>x\<bar> / 2 powr 23"
    using x by (simp add: powr_diff)
  also have "\<dots> = \<bar>x\<bar> / 2 ^ 23"
    by (simp add: powr_numeral)
  finally show ?thesis .
qed

lemma ulp32_subnormal:
  assumes "x \<noteq> 0" and "\<bar>x\<bar> < 2 powr (- 126)"
  shows "ulp32 x = 2 powr (- 149)"
proof -
  have "log 2 \<bar>x\<bar> < - 126" using assms by (simp add: log_less_iff)
  then have "\<lfloor>log 2 \<bar>x\<bar>\<rfloor> \<le> - 126" by (simp add: floor_le_iff)
  then have m: "max \<lfloor>log 2 \<bar>x\<bar>\<rfloor> (- 126) = - 126" by (rule max_absorb2)
  show ?thesis unfolding ulp32_def m by simp
qed

lemma rnd32_error_normal:
  assumes "2 powr (- 126) \<le> \<bar>x\<bar>"
  shows "\<bar>rnd32 x - x\<bar> \<le> \<bar>x\<bar> / 2 ^ 24"
  using rnd32_half_ulp [of x] ulp32_normal [OF assms] by simp

lemma rnd32_error: "\<bar>rnd32 x - x\<bar> \<le> \<bar>x\<bar> / 2 ^ 24 + 2 powr (- 150)"
proof (cases "2 powr (- 126) \<le> \<bar>x\<bar>")
  case True
  from rnd32_error_normal [OF True] show ?thesis by (smt (verit) powr_gt_zero)
next
  case False
  show ?thesis
  proof (cases "x = 0")
    case True
    then show ?thesis by simp
  next
    case nz: False
    have "ulp32 x = 2 powr (- 149)" using nz False by (intro ulp32_subnormal) simp_all
    moreover have "(2::real) powr (- 149) / 2 = 2 powr (- 150)"
      by (simp add: powr_minus powr_numeral)
    ultimately have "\<bar>rnd32 x - x\<bar> \<le> 2 powr (- 150)"
      using rnd32_half_ulp [of x] by simp
    then show ?thesis by (smt (verit) divide_nonneg_pos zero_less_power abs_ge_zero)
  qed
qed

lemma rnd32_eval:
  assumes "2 powr (of_int k) \<le> \<bar>x\<bar>" and "\<bar>x\<bar> < 2 powr (of_int k + 1)" and "- 126 \<le> k"
  shows "rnd32 x = 2 powr (of_int k - 23) * of_int (round_even (x / 2 powr (of_int k - 23)))"
proof -
  have x: "0 < \<bar>x\<bar>" using assms(1) by (smt (verit) powr_gt_zero)
  have "of_int k \<le> log 2 \<bar>x\<bar>" using assms(1) x by (simp add: le_log_iff)
  moreover have "log 2 \<bar>x\<bar> < of_int k + 1" using assms(2) x by (simp add: log_less_iff)
  ultimately have "\<lfloor>log 2 \<bar>x\<bar>\<rfloor> = k" by linarith
  then have "max \<lfloor>log 2 \<bar>x\<bar>\<rfloor> (- 126) = k" using assms(3) by simp
  then have "ulp32 x = 2 powr (of_int k - 23)" by (simp add: ulp32_def)
  then show ?thesis using x by (simp add: rnd32_def)
qed

lemma rnd32_one [simp]: "rnd32 1 = 1"
  using rnd32_eval [of 0 1] by (simp add: round_even_def powr_minus powr_numeral)

lemma rnd32_third: "rnd32 (1 / 3) = 11184811 / 33554432"
  using rnd32_eval [of "- 2" "1 / 3"] by (simp add: round_even_def powr_minus powr_numeral)


lemma einsum32_ndh_nqh_ndq:
  assumes "shape a = [N, D, H]" "shape b = [N, Q, H]"
  shows "\<exists>t. einsum32 ''ndh,nqh->ndq'' a b = Some t \<and> shape t = [N, D, Q]
     \<and> (\<forall>n d q. elem t [n, d, q] =
          fsum32 (map (\<lambda>h. fmul32 (elem a [n, d, h]) (elem b [n, q, h])) [0..<H]))"
  using assms
  by (simp add: einsum32_def parse_equation_def label_dims_def dims_agree_def rank_def
      bind_labels_def)

lemma einsum32_ndh_ndq_nqh:
  assumes "shape a = [N, D, H]" "shape b = [N, D, Q]"
  shows "\<exists>t. einsum32 ''ndh,ndq->nqh'' a b = Some t \<and> shape t = [N, Q, H]"
  using assms
  by (simp add: einsum32_def parse_equation_def label_dims_def dims_agree_def rank_def
      bind_labels_def)

lemma einsum32_nqh_nqd_ndh:
  assumes "shape a = [N, Q, H]" "shape b = [N, Q, D]"
  shows "\<exists>t. einsum32 ''nqh,nqd->ndh'' a b = Some t \<and> shape t = [N, D, H]"
  using assms
  by (simp add: einsum32_def parse_equation_def label_dims_def dims_agree_def rank_def
      bind_labels_def)

lemma softmax32_axis1:
  assumes "shape a = [N, D, Q]"
  shows "\<exists>t. softmax32 a 1 = Some t \<and> shape t = [N, D, Q]
      \<and> (\<forall>n d q. elem t [n, d, q] = softmax_weight32 (column n D q a) (elem a [n, d, q]))"
  using assms by (simp add: softmax32_def rank_def column_def)

lemma coattention_body32_unfold:
  assumes q: "shape query = [N, Q, H]" and d: "shape document = [N, D, H]"
    and ql: "shape query_length = [N]" and dl: "shape document_length = [N]"
  obtains l where
    "coattention_body32 query query_length document document_length sentinel = Some l"
    "\<And>n d q. elem (unmasked_affinity l) [n, d, q] =
        fsum32 (map (\<lambda>h. fmul32 (elem document [n, d, h]) (elem query [n, q, h])) [0..<H])"
    "\<And>n d q. n < N \<Longrightarrow> d < D \<Longrightarrow> elem (affinity l) [n, d, q] =
        (if int d < elem document_length [n] then elem (unmasked_affinity l) [n, d, q] else NInf)"
    "\<And>n d q. elem (attention_p l) [n, d, q] =
        softmax_weight32 (column n D q (affinity l)) (elem (affinity l) [n, d, q])"
    "\<And>n q d. n < N \<Longrightarrow> q < Q \<Longrightarrow> elem (affinity_t l) [n, q, d] =
        (if int q < elem query_length [n] then elem (unmasked_affinity l) [n, d, q] else NInf)"
    "\<And>n q d. elem (attention_q l) [n, q, d] =
        softmax_weight32 (column n Q d (affinity_t l)) (elem (affinity_t l) [n, q, d])"
proof -
  obtain ua where ua: "einsum32 ''ndh,nqh->ndq'' document query = Some ua" "shape ua = [N, D, Q]"
    "\<And>n d q. elem ua [n, d, q] =
        fsum32 (map (\<lambda>h. fmul32 (elem document [n, d, h]) (elem query [n, q, h])) [0..<H])"
    using einsum32_ndh_nqh_ndq [OF d q] by blast
  obtain af where af: "maybe_mask_affinity ua (Some document_length) None = Some af"
    "shape af = [N, D, Q]"
    "\<And>n d q. n < N \<Longrightarrow> d < D \<Longrightarrow> elem af [n, d, q] =
        (if int d < elem document_length [n] then elem ua [n, d, q] else NInf)"
    using mask_some [OF ua(2) dl, of None] by auto
  obtain ap where ap: "softmax32 af 1 = Some ap" "shape ap = [N, D, Q]"
    "\<And>n d q. elem ap [n, d, q] = softmax_weight32 (column n D q af) (elem af [n, d, q])"
    using softmax32_axis1 [OF af(2)] by blast
  obtain tr where tr: "transpose_tensor ua [0, 2, 1] = Some tr" "shape tr = [N, Q, D]"
    "\<And>n q d. elem tr [n, q, d] = elem ua [n, d, q]"
    using transpose_021 [OF ua(2)] by blast
  obtain aft where aft: "maybe_mask_affinity tr (Some query_length) None = Some aft"
    "shape aft = [N, Q, D]"
    "\<And>n q d. n < N \<Longrightarrow> q < Q \<Longrightarrow> elem aft [n, q, d] =
        (if int q < elem query_length [n] then elem tr [n, q, d] else NInf)"
    using mask_some [OF tr(2) ql, of None] by auto
  obtain aq where aq: "softmax32 aft 1 = Some aq" "shape aq = [N, Q, D]"
    "\<And>n q d. elem aq [n, q, d] = softmax_weight32 (column n Q d aft) (elem aft [n, q, d])"
    using softmax32_axis1 [OF aft(2)] by blast
  obtain sq where sq: "einsum32 ''ndh,ndq->nqh'' document ap = Some sq" "shape sq = [N, Q, H]"
    using einsum32_ndh_ndq_nqh [OF d ap(2)] by blast
  obtain sd where sd: "einsum32 ''nqh,nqd->ndh'' query aq = Some sd" "shape sd = [N, D, H]"
    using einsum32_nqh_nqd_ndh [OF q aq(2)] by blast
  obtain cd where cd: "einsum32 ''nqh,nqd->ndh'' sq aq = Some cd" "shape cd = [N, D, H]"
    using einsum32_nqh_nqd_ndh [OF sq(2) aq(2)] by blast
  let ?l = "\<lparr>unmasked_affinity = ua, affinity = af, attention_p = ap, affinity_t = aft,
             attention_q = aq, summary_q = sq, summary_d = sd, coattention_d = cd\<rparr>"
  have body: "coattention_body32 query query_length document document_length sentinel = Some ?l"
    unfolding coattention_body32_def
    by (simp only: ua(1) af(1) ap(1) tr(1) aft(1) aq(1) sq(1) sd(1) cd(1) bind.bind_lunit)
  show thesis
    by (rule that [of ?l]) (simp_all add: body ua af ap tr aft aq)
qed


lemma rnd32_error': "\<bar>rnd32 x - x\<bar> \<le> \<bar>x\<bar> / 2 ^ 24 + 1 / 2 ^ 150"
  using rnd32_error [of x] by (simp add: powr_minus powr_numeral)

lemma rnd32_error_normal':
  assumes "1 / 2 ^ 126 \<le> \<bar>x\<bar>"
  shows "\<bar>rnd32 x - x\<bar> \<le> \<bar>x\<bar> / 2 ^ 24"
  using assms by (intro rnd32_error_normal) (simp add: powr_minus powr_numeral)

lemma rsum32_Nil [simp]: "rsum32 [] = 0"
  by (simp add: rsum32_def)

lemma rsum32_Cons [simp]: "rsum32 (e # es) = rnd32 (e + rsum32 es)"
  by (simp add: rsum32_def)

lemma sum_step_bound:
  fixes e s S rn h P R K :: real
  assumes "0 \<le> e" and "0 \<le> S" and "0 \<le> s" and "0 \<le> h"
    and "P \<le> S / 8" and "0 \<le> R" and "K \<le> h * 2 ^ 20"
    and "\<bar>s - S\<bar> \<le> P + K"
    and "\<bar>rn - (e + s)\<bar> \<le> (e + s) / 2 ^ 24 + h / 2"
  shows "\<bar>rn - (e + S)\<bar> \<le> R + P + (e + S) / 2 ^ 23 + K + h"
proof -
  have 1: "s \<le> S + P + K" "S \<le> s + P + K" using assms(8) by linarith+
  have 2: "rn \<le> e + s + (e + s) / 2 ^ 24 + h / 2" "e + s \<le> rn + (e + s) / 2 ^ 24 + h / 2"
    using assms(9) by linarith+
  have 3: "(e + s) / 2 ^ 24 \<le> (e + S + S / 8 + h * 2 ^ 20) / 2 ^ 24"
    using 1 assms(5,7) by (intro divide_right_mono) simp_all
  have 4: "(e + S + S / 8 + h * 2 ^ 20) / 2 ^ 24 = e / 2 ^ 24 + S * (9 / 8) / 2 ^ 24 + h / 16"
    by (simp add: field_simps)
  have 5: "(e + S) / 2 ^ 23 = 2 * (e / 2 ^ 24) + 2 * (S / 2 ^ 24)" by simp
  have 6: "S * (9 / 8) / 2 ^ 24 = (9 / 8) * (S / 2 ^ 24)" by simp
  have 7: "0 \<le> e / 2 ^ 24" "0 \<le> S / 2 ^ 24" using assms(1,2) by simp_all
  show ?thesis
    using 1 2 3 7 assms(1-7) unfolding 4 5 6 by linarith
qed

lemma rsum32_bound:
  assumes "\<forall>e\<in>set es. 0 \<le> e" and "length es \<le> 2 ^ 20"
  shows "0 \<le> rsum32 es
       \<and> \<bar>rsum32 es - sum_list es\<bar>
           \<le> real (length es) * (sum_list es / 2 ^ 23) + real (length es) * (1 / 2 ^ 149)"
  using assms
proof (induction es)
  case Nil
  then show ?case by simp
next
  case (Cons e es)
  let ?k = "real (length es)"
  let ?S = "sum_list es"
  let ?s = "rsum32 es"
  have e: "0 \<le> e" and all: "\<forall>e\<in>set es. 0 \<le> e" using Cons.prems(1) by simp_all
  have len: "length es \<le> 2 ^ 20" using Cons.prems(2) by simp
  have k: "?k \<le> 2 ^ 20" using len by (metis of_nat_le_iff of_nat_numeral of_nat_power)
  have S: "0 \<le> ?S" using all by (simp add: sum_list_nonneg)
  from Cons.IH [OF all len]
  have s: "0 \<le> ?s" and ih: "\<bar>?s - ?S\<bar> \<le> ?k * (?S / 2 ^ 23) + ?k * (1 / 2 ^ 149)"
    by simp_all
  have nn: "0 \<le> rnd32 (e + ?s)" using e s by (intro rnd32_nonneg) simp
  have P: "?k * (?S / 2 ^ 23) \<le> ?S / 8"
  proof -
    have "?k * (?S / 2 ^ 23) \<le> 2 ^ 20 * (?S / 2 ^ 23)"
      using k S by (intro mult_right_mono) simp_all
    then show ?thesis by simp
  qed
  have R: "0 \<le> ?k * (e / 2 ^ 23)" using e by simp
  have K: "?k * (1 / 2 ^ 149) \<le> (1 / 2 ^ 149) * 2 ^ 20"
    using k by simp
  have r: "\<bar>rnd32 (e + ?s) - (e + ?s)\<bar> \<le> (e + ?s) / 2 ^ 24 + (1 / 2 ^ 149) / 2"
    using rnd32_error' [of "e + ?s"] e s by simp
  have h: "(0::real) \<le> 1 / 2 ^ 149" by simp
  from sum_step_bound [OF e S s h P R K ih r]
  have "\<bar>rnd32 (e + ?s) - (e + ?S)\<bar>
      \<le> ?k * (e / 2 ^ 23) + ?k * (?S / 2 ^ 23) + (e + ?S) / 2 ^ 23 + ?k * (1 / 2 ^ 149)
          + 1 / 2 ^ 149" .
  also have "\<dots> = real (length (e # es)) * (sum_list (e # es) / 2 ^ 23)
      + real (length (e # es)) * (1 / 2 ^ 149)"
    by (simp add: algebra_simps add_divide_distrib)
  finally show ?case using nn by simp
qed

lemma sum_bounds:
  fixes S E D :: real
  assumes "\<bar>S - E\<bar> \<le> D * (E / 2 ^ 23) + D * (1 / 2 ^ 149)"
    and "1 \<le> E" and "0 \<le> D" and "D \<le> 2 ^ 20"
  shows "3 / 4 * E \<le> S" and "S \<le> 5 / 4 * E"
proof -
  have "D * (E / 2 ^ 23) \<le> 2 ^ 20 * (E / 2 ^ 23)"
    using assms(2,4) by (intro mult_right_mono) simp_all
  then have a: "D * (E / 2 ^ 23) \<le> E / 8" by simp
  have "D * (1 / 2 ^ 149) \<le> 2 ^ 20 * (1 / 2 ^ 149)"
    using assms(4) by (intro mult_right_mono) simp_all
  then have b: "D * (1 / 2 ^ 149) \<le> 1 / 8" by simp
  have c: "S - E \<le> D * (E / 2 ^ 23) + D * (1 / 2 ^ 149)"
    "E - S \<le> D * (E / 2 ^ 23) + D * (1 / 2 ^ 149)"
    using assms(1) by linarith+
  show "3 / 4 * E \<le> S" using a b c assms(2) by linarith
  show "S \<le> 5 / 4 * E" using a b c assms(2) by linarith
qed

lemma recip_bounds:
  fixes S E :: real
  assumes "3 / 4 * E \<le> S" and "1 \<le> E"
  shows "E * (1 / S) \<le> 4 / 3" and "1 / S \<le> 4 / 3" and "0 < 1 / S"
proof -
  have S: "0 < S" using assms by linarith
  show "E * (1 / S) \<le> 4 / 3" using S assms(1) by (simp add: field_simps)
  show "1 / S \<le> 4 / 3" using S assms by (simp add: field_simps)
  show "0 < 1 / S" using S by simp
qed

lemma ratio_error:
  fixes S E D :: real
  assumes "\<bar>S - E\<bar> \<le> D * (E / 2 ^ 23) + D * (1 / 2 ^ 149)"
    and "1 \<le> E" and "0 \<le> D" and "3 / 4 * E \<le> S"
  shows "\<bar>E * (1 / S) - 1\<bar> \<le> 4 / 3 * (D / 2 ^ 23) + 4 / 3 * (D / 2 ^ 149)"
proof -
  have S: "0 < S" using assms by linarith
  note r = recip_bounds [OF assms(4,2)]
  have "E * (1 / S) - 1 = (E - S) * (1 / S)" using S by (simp add: field_simps)
  then have "\<bar>E * (1 / S) - 1\<bar> = \<bar>S - E\<bar> * (1 / S)"
    using S by (simp add: abs_mult abs_minus_commute)
  also have "\<dots> \<le> (D * (E / 2 ^ 23) + D * (1 / 2 ^ 149)) * (1 / S)"
    using assms(1) S by (intro mult_right_mono) simp_all
  also have "\<dots> = D / 2 ^ 23 * (E * (1 / S)) + D / 2 ^ 149 * (1 / S)"
    by (simp add: algebra_simps)
  also have "\<dots> \<le> D / 2 ^ 23 * (4 / 3) + D / 2 ^ 149 * (4 / 3)"
    using r(1,2) assms(3) by (intro add_mono mult_left_mono) simp_all
  finally show ?thesis by (simp add: algebra_simps)
qed

lemma final_linear:
  fixes W X Y D :: real
  assumes "\<bar>W - X\<bar> \<le> X / 2 ^ 24 + D / 2 ^ 150" and "\<bar>X - Y\<bar> \<le> Y / 2 ^ 24"
    and "0 \<le> Y" and "Y \<le> 4 / 3"
    and "\<bar>Y - 1\<bar> \<le> 4 / 3 * (D / 2 ^ 23) + 4 / 3 * (D / 2 ^ 149)" and "1 \<le> D"
  shows "\<bar>W - 1\<bar> \<le> (D + 1) / 2 ^ 22"
proof -
  define d where "d = D / 2 ^ 24"
  define q where "q = (1::real) / 2 ^ 24"
  have q: "0 < q" "q \<le> 1 / 16" by (simp_all add: q_def)
  have d: "q \<le> d" using assms(6) by (simp add: d_def q_def field_simps)
  have a: "D / 2 ^ 150 \<le> d / 100" using assms(6) by (simp add: d_def field_simps)
  have b: "4 / 3 * (D / 2 ^ 149) \<le> d / 100" using assms(6) by (simp add: d_def field_simps)
  have c: "4 / 3 * (D / 2 ^ 23) = 8 / 3 * d" by (simp add: d_def)
  have t: "(D + 1) / 2 ^ 22 = 4 * d + 4 * q" by (simp add: d_def q_def field_simps)
  have y: "Y / 2 ^ 24 \<le> 4 / 3 * q" using assms(4) by (simp add: q_def)
  have 2: "X - Y \<le> Y / 2 ^ 24" "Y - X \<le> Y / 2 ^ 24" using assms(2) by linarith+
  have x: "X \<le> 2" using 2 assms(4) y q by linarith
  have x': "X / 2 ^ 24 \<le> 2 * q" using x by (simp add: q_def)
  have 1: "W - X \<le> X / 2 ^ 24 + D / 2 ^ 150" "X - W \<le> X / 2 ^ 24 + D / 2 ^ 150"
    using assms(1) by linarith+
  have 3: "Y - 1 \<le> 8 / 3 * d + d / 100" "1 - Y \<le> 8 / 3 * d + d / 100"
    using assms(5) b unfolding c by linarith+
  have "W - 1 \<le> 4 * d + 4 * q" "1 - W \<le> 4 * d + 4 * q"
    using 1 2 3 a y x' d q by linarith+
  then show ?thesis unfolding t by linarith
qed


lemma sum_list_le_twice:
  fixes es :: "real list"
  shows "\<forall>e\<in>set es. e \<le> 2 \<Longrightarrow> sum_list es \<le> 2 * real (length es)"
  by (induction es) auto

lemma weights_sum_error:
  assumes "\<forall>e\<in>set es. 0 \<le> e" and "0 \<le> r"
  shows "\<bar>sum_list (map (\<lambda>e. rnd32 (e * r)) es) - sum_list es * r\<bar>
           \<le> sum_list es * r / 2 ^ 24 + real (length es) / 2 ^ 150"
  using assms(1)
proof (induction es)
  case Nil
  then show ?case by simp
next
  case (Cons e es)
  let ?W = "sum_list (map (\<lambda>e. rnd32 (e * r)) es)"
  have e: "0 \<le> e * r" using Cons.prems assms(2) by simp
  have a: "\<bar>rnd32 (e * r) - e * r\<bar> \<le> e * r / 2 ^ 24 + 1 / 2 ^ 150"
    using rnd32_error' [of "e * r"] e by simp
  have ih: "\<bar>?W - sum_list es * r\<bar> \<le> sum_list es * r / 2 ^ 24 + real (length es) / 2 ^ 150"
    using Cons by simp
  have 1: "sum_list (e # es) * r = e * r + sum_list es * r" by (simp add: algebra_simps)
  have 2: "(e * r + sum_list es * r) / 2 ^ 24 = e * r / 2 ^ 24 + sum_list es * r / 2 ^ 24"
    by (simp add: add_divide_distrib)
  have 3: "real (length (e # es)) / 2 ^ 150 = real (length es) / 2 ^ 150 + 1 / 2 ^ 150"
    by (simp add: add_divide_distrib)
  have 4: "sum_list (map (\<lambda>e. rnd32 (e * r)) (e # es)) = rnd32 (e * r) + ?W" by simp
  show ?case unfolding 1 2 3 4 using a ih by linarith
qed

lemma softmax_real_bound:
  assumes es: "\<forall>e\<in>set es. 0 \<le> e \<and> e \<le> 2" and one: "1 \<le> sum_list es"
    and len: "length es \<le> 2 ^ 20"
  shows "0 < rsum32 es" and "rsum32 es \<le> 2 ^ 22"
    and "1 / rsum32 es \<le> 4 / 3"
    and "0 \<le> rnd32 (1 / rsum32 es)" and "rnd32 (1 / rsum32 es) \<le> 2"
    and "\<bar>sum_list (map (\<lambda>e. rnd32 (e * rnd32 (1 / rsum32 es))) es) - 1\<bar>
           \<le> (real (length es) + 1) / 2 ^ 22"
proof -
  let ?E = "sum_list es"
  let ?D = "real (length es)"
  let ?S = "rsum32 es"
  let ?r = "rnd32 (1 / ?S)"
  have nn: "\<forall>e\<in>set es. 0 \<le> e" and le2: "\<forall>e\<in>set es. e \<le> 2" using es by simp_all
  have D: "?D \<le> 2 ^ 20" using len by (metis of_nat_le_iff of_nat_numeral of_nat_power)
  have "es \<noteq> []" using one by auto
  then have D1: "1 \<le> ?D" by (cases es) simp_all
  have E2: "?E \<le> 2 * ?D" using le2 by (rule sum_list_le_twice)
  have f1: "\<bar>?S - ?E\<bar> \<le> ?D * (?E / 2 ^ 23) + ?D * (1 / 2 ^ 149)"
    using rsum32_bound [OF nn len] by simp
  have D0: "0 \<le> ?D" by simp
  note sb = sum_bounds [OF f1 one D0 D]
  show S: "0 < ?S" using sb(1) one by linarith
  show S22: "?S \<le> 2 ^ 22" using sb(2) E2 D by simp
  note rb = recip_bounds [OF sb(1) one]
  show "1 / ?S \<le> 4 / 3" by (rule rb(2))
  have "1 / 2 ^ 22 \<le> 1 / ?S" using S S22 by (intro divide_left_mono) simp_all
  then have "(1::real) / 2 ^ 126 \<le> 1 / ?S" by simp
  then have normal: "1 / 2 ^ 126 \<le> \<bar>1 / ?S\<bar>" using rb(3) by simp
  have re: "\<bar>?r - 1 / ?S\<bar> \<le> 1 / ?S / 2 ^ 24"
    using rnd32_error_normal' [OF normal] rb(3) by simp
  show r0: "0 \<le> ?r" using rb(3) by (intro rnd32_nonneg) simp
  have "?r \<le> 1 / ?S + 1 / ?S / 2 ^ 24" using re by linarith
  moreover have "1 / ?S / 2 ^ 24 \<le> 4 / 3 / 2 ^ 24" using rb(2) by (intro divide_right_mono) simp_all
  ultimately show "?r \<le> 2" using rb(2) by simp
  let ?X = "?E * ?r"
  let ?Y = "?E * (1 / ?S)"
  have "?X - ?Y = ?E * (?r - 1 / ?S)" by (simp only: right_diff_distrib)
  then have "\<bar>?X - ?Y\<bar> = \<bar>?E\<bar> * \<bar>?r - 1 / ?S\<bar>" by (simp only: abs_mult)
  also have "\<dots> = ?E * \<bar>?r - 1 / ?S\<bar>" using one by simp
  also have "\<dots> \<le> ?E * (1 / ?S / 2 ^ 24)"
    using re one by (intro mult_left_mono) simp_all
  finally have xy: "\<bar>?X - ?Y\<bar> \<le> ?Y / 2 ^ 24" by simp
  have y0: "0 \<le> ?Y" using one rb(3) by simp
  have w: "\<bar>sum_list (map (\<lambda>e. rnd32 (e * ?r)) es) - ?X\<bar> \<le> ?X / 2 ^ 24 + ?D / 2 ^ 150"
    using weights_sum_error [OF nn r0] by simp
  note y1 = ratio_error [OF f1 one D0 sb(1)]
  show "\<bar>sum_list (map (\<lambda>e. rnd32 (e * ?r)) es) - 1\<bar> \<le> (?D + 1) / 2 ^ 22"
    by (rule final_linear [OF w xy y0 rb(1) y1 D1])
qed


lemma max32_large: "4096 \<le> max32"
  by (simp add: max32_def)

lemma round_fl_Fin:
  assumes "0 \<le> x" and "x \<le> 2 ^ 30"
  shows "round_fl (Fin x) = Fin (rnd32 x)"
proof -
  have "0 \<le> rnd32 x" using assms(1) by (rule rnd32_nonneg)
  moreover have "rnd32 x \<le> x + x / 2 ^ 24 + 1 / 2 ^ 150"
    using rnd32_error' [of x] assms(1) by simp
  moreover have "x / 2 ^ 24 \<le> 2 ^ 30 / 2 ^ 24" using assms(2) by (intro divide_right_mono) simp_all
  moreover have "(2 ^ 30 + 2 ^ 30 / 2 ^ 24 + 1 / 2 ^ 150 :: real) \<le> max32" by (simp add: max32_def)
  ultimately have "0 \<le> rnd32 x" "rnd32 x \<le> max32" using assms(2) by linarith+
  moreover have "0 \<le> max32" using max32_large by linarith
  ultimately show ?thesis by (simp add: round_fl_def)
qed

lemma rnd32_le_two:
  assumes "0 \<le> x" and "x \<le> 1"
  shows "rnd32 x \<le> 2"
  using rnd32_error' [of x] assms by simp

lemma rsum32_upper:
  assumes "\<forall>e\<in>set es. 0 \<le> e \<and> e \<le> 2" and "length es \<le> 2 ^ 20"
  shows "0 \<le> rsum32 es" and "rsum32 es \<le> 2 ^ 22"
proof -
  let ?E = "sum_list es"
  let ?D = "real (length es)"
  have nn: "\<forall>e\<in>set es. 0 \<le> e" and le2: "\<forall>e\<in>set es. e \<le> 2" using assms(1) by simp_all
  have D: "?D \<le> 2 ^ 20" using assms(2) by (metis of_nat_le_iff of_nat_numeral of_nat_power)
  have E0: "0 \<le> ?E" using nn by (simp add: sum_list_nonneg)
  have E2: "?E \<le> 2 * ?D" using le2 by (rule sum_list_le_twice)
  note b = rsum32_bound [OF nn assms(2)]
  show "0 \<le> rsum32 es" using b by simp
  have "?D * (?E / 2 ^ 23) \<le> 2 ^ 20 * (?E / 2 ^ 23)"
    using D E0 by (intro mult_right_mono) simp_all
  then have 1: "?D * (?E / 2 ^ 23) \<le> ?E / 8" by simp
  have "?D * (1 / 2 ^ 149) \<le> 2 ^ 20 * (1 / 2 ^ 149)"
    using D by (intro mult_right_mono) simp_all
  then have 2: "?D * (1 / 2 ^ 149) \<le> 1" by simp
  have "rsum32 es - ?E \<le> ?D * (?E / 2 ^ 23) + ?D * (1 / 2 ^ 149)" using b by linarith
  then have "rsum32 es \<le> ?E + ?E / 8 + 1" using 1 2 by linarith
  moreover have "?E \<le> 2 ^ 21" using E2 D by simp
  ultimately show "rsum32 es \<le> 2 ^ 22" by simp
qed

lemma fsum32_Nil [simp]: "fsum32 [] = Fin 0"
  by (simp add: fsum32_def)

lemma fsum32_Cons [simp]: "fsum32 (x # xs) = fadd32 x (fsum32 xs)"
  by (simp add: fsum32_def)

lemma fsum32_Fin:
  assumes "\<forall>e\<in>set es. 0 \<le> e \<and> e \<le> 2" and "length es \<le> 2 ^ 20"
  shows "fsum32 (map Fin es) = Fin (rsum32 es)"
  using assms
proof (induction es)
  case Nil
  then show ?case by simp
next
  case (Cons e es)
  have t: "\<forall>e\<in>set es. 0 \<le> e \<and> e \<le> 2" "length es \<le> 2 ^ 20" using Cons.prems by simp_all
  have ih: "fsum32 (map Fin es) = Fin (rsum32 es)" using Cons.IH [OF t] .
  note u = rsum32_upper [OF t]
  have e: "0 \<le> e" "e \<le> 2" using Cons.prems(1) by simp_all
  have "round_fl (Fin (e + rsum32 es)) = Fin (rnd32 (e + rsum32 es))"
    using e u by (intro round_fl_Fin) simp_all
  then show ?case by (simp add: ih fadd32_def)
qed

lemma fmaximum_upper:
  "list_all unmasked_or_masked xs \<Longrightarrow> fmaximum xs = Fin m \<Longrightarrow> Fin r \<in> set xs \<Longrightarrow> r \<le> m"
proof (induction xs arbitrary: m)
  case Nil
  then show ?case by simp
next
  case (Cons x xs)
  have t: "list_all unmasked_or_masked xs" and x: "unmasked_or_masked x"
    using Cons.prems(1) by simp_all
  have rng: "unmasked_or_masked (fmaximum xs)" using t by (rule fmaximum_range)
  show ?case
  proof (cases "fmaximum xs")
    case (Fin m')
    have ih: "Fin r \<in> set xs \<Longrightarrow> r \<le> m'" using Cons.IH [OF t Fin] .
    show ?thesis
      using Cons.prems(2,3) x ih Fin
      by (cases x) (auto simp: fmaximum_Cons unmasked_or_masked_def)
  next
    case NInf
    have "Fin r \<notin> set xs"
    proof
      assume "Fin r \<in> set xs"
      from fmaximum_finite [OF t this] NInf show False by simp
    qed
    then show ?thesis
      using Cons.prems(2,3) x NInf
      by (cases x) (auto simp: fmaximum_Cons unmasked_or_masked_def)
  next
    case PInf
    then show ?thesis using rng by (simp add: unmasked_or_masked_def)
  next
    case NaN
    then show ?thesis using rng by (simp add: unmasked_or_masked_def)
  qed
qed

lemma fmaximum_mem:
  "list_all unmasked_or_masked xs \<Longrightarrow> fmaximum xs = Fin m \<Longrightarrow> Fin m \<in> set xs"
proof (induction xs arbitrary: m)
  case Nil
  then show ?case by (simp add: fmaximum_def)
next
  case (Cons x xs)
  have t: "list_all unmasked_or_masked xs" and x: "unmasked_or_masked x"
    using Cons.prems(1) by simp_all
  have rng: "unmasked_or_masked (fmaximum xs)" using t by (rule fmaximum_range)
  show ?case
  proof (cases "fmaximum xs")
    case (Fin m')
    have ih: "Fin m' \<in> set xs" using Cons.IH [OF t Fin] .
    show ?thesis
      using Cons.prems(2) x ih Fin
      by (cases x) (auto simp: fmaximum_Cons unmasked_or_masked_def max_def split: if_splits)
  next
    case NInf
    then show ?thesis
      using Cons.prems(2) x
      by (cases x) (auto simp: fmaximum_Cons unmasked_or_masked_def)
  next
    case PInf
    then show ?thesis using rng by (simp add: unmasked_or_masked_def)
  next
    case NaN
    then show ?thesis using rng by (simp add: unmasked_or_masked_def)
  qed
qed

lemma e32_range: "0 \<le> e32 m x \<and> (x = NInf \<or> (\<exists>r. x = Fin r \<and> r \<le> m) \<longrightarrow> e32 m x \<le> 2)"
proof (cases x)
  case (Fin r)
  have a: "0 \<le> rnd32 (exp (rnd32 (r - m)))" by (intro rnd32_nonneg) simp
  have b: "rnd32 (exp (rnd32 (r - m))) \<le> 2" if "r \<le> m"
  proof -
    have "rnd32 (r - m) \<le> 0" using that by (intro rnd32_nonpos) simp
    then have "exp (rnd32 (r - m)) \<le> 1" by simp
    then show ?thesis by (intro rnd32_le_two) simp_all
  qed
  show ?thesis using a b Fin by (simp add: e32_def)
qed (simp_all add: e32_def)

lemma e32_max [simp]: "e32 m (Fin m) = 1"
  using max32_large by (simp add: e32_def)

lemma fexp32_shifted:
  assumes "x = NInf \<or> (\<exists>r. x = Fin r \<and> r \<le> m)"
  shows "fexp32 (fsub32 x (Fin m)) = Fin (e32 m x)"
proof (cases x)
  case (Fin r)
  then have rm: "r \<le> m" using assms by simp
  have np: "rnd32 (r - m) \<le> 0" using rm by (intro rnd32_nonpos) simp
  have m0: "0 \<le> max32" using max32_large by linarith
  have z: "round_fl (Fin 0) = Fin 0" using m0 by (simp add: round_fl_def)
  show ?thesis
  proof (cases "rnd32 (r - m) < - max32")
    case True
    then show ?thesis using Fin np m0 z
      by (simp add: fexp32_def fsub32_def fsub_def round_fl_def e32_def)
  next
    case False
    have ex: "exp (rnd32 (r - m)) \<le> 1" using np by simp
    have "round_fl (Fin (exp (rnd32 (r - m)))) = Fin (rnd32 (exp (rnd32 (r - m))))"
    proof (rule round_fl_Fin)
      show "0 \<le> exp (rnd32 (r - m))" by simp
      have "(1::real) \<le> 2 ^ 30" by simp
      with ex show "exp (rnd32 (r - m)) \<le> 2 ^ 30" by (rule order_trans)
    qed
    moreover have "fsub32 (Fin r) (Fin m) = Fin (rnd32 (r - m))"
      using False np m0 by (simp add: fsub32_def fsub_def round_fl_def)
    ultimately show ?thesis using Fin False by (simp add: fexp32_def e32_def)
  qed
next
  case NInf
  have m0: "0 \<le> max32" using max32_large by linarith
  show ?thesis using NInf m0
    by (simp add: fexp32_def fsub32_def fsub_def round_fl_def e32_def)
next
  case PInf
  then show ?thesis using assms by simp
next
  case NaN
  then show ?thesis using assms by simp
qed


lemma member_le_sum_list_real:
  fixes es :: "real list"
  shows "\<forall>e\<in>set es. 0 \<le> e \<Longrightarrow> x \<in> set es \<Longrightarrow> x \<le> sum_list es"
proof (induction es)
  case Nil
  then show ?case by simp
next
  case (Cons e es)
  have "0 \<le> sum_list es" using Cons.prems(1) by (simp add: sum_list_nonneg)
  then show ?case using Cons by auto
qed

lemma softmax32_column:
  assumes c: "list_all unmasked_or_masked xs" and f: "Fin r0 \<in> set xs"
    and len: "length xs \<le> 2 ^ 20"
  shows "\<exists>ws. map (softmax_weight32 xs) xs = map Fin ws
      \<and> \<bar>sum_list ws - 1\<bar> \<le> (real (length xs) + 1) / 2 ^ 22"
proof -
  obtain m where m: "fmaximum xs = Fin m"
    using fmaximum_finite [OF c f] by blast
  have dom: "x = NInf \<or> (\<exists>r. x = Fin r \<and> r \<le> m)" if "x \<in> set xs" for x
  proof (cases x)
    case (Fin r)
    then have "r \<le> m" using fmaximum_upper [OF c m] that by simp
    then show ?thesis using Fin by simp
  next
    case NInf
    then show ?thesis by simp
  next
    case PInf
    then show ?thesis using c that by (auto simp: list_all_iff unmasked_or_masked_def)
  next
    case NaN
    then show ?thesis using c that by (auto simp: list_all_iff unmasked_or_masked_def)
  qed
  let ?es = "map (e32 m) xs"
  have "0 \<le> e32 m x \<and> e32 m x \<le> 2" if "x \<in> set xs" for x
    using e32_range [of m x] dom [OF that] by blast
  then have es: "\<forall>e\<in>set ?es. 0 \<le> e \<and> e \<le> 2" by simp
  have "Fin m \<in> set xs" using c m by (rule fmaximum_mem)
  then have "e32 m (Fin m) \<in> e32 m ` set xs" by (rule imageI)
  then have "1 \<in> set ?es" by simp
  then have one: "1 \<le> sum_list ?es"
    using es by (intro member_le_sum_list_real) simp_all
  have len': "length ?es \<le> 2 ^ 20" using len by simp
  note b = softmax_real_bound [OF es one len']
  let ?S = "rsum32 ?es"
  let ?r = "rnd32 (1 / ?S)"
  have ex: "map (\<lambda>y. fexp32 (fsub32 y (Fin m))) xs = map Fin ?es"
    using dom by (simp add: fexp32_shifted)
  have sum: "fsum32 (map (\<lambda>y. fexp32 (fsub32 y (Fin m))) xs) = Fin ?S"
    unfolding ex by (rule fsum32_Fin [OF es len'])
  have inv: "finv32 (Fin ?S) = Fin ?r"
  proof -
    have "round_fl (Fin (1 / ?S)) = Fin ?r"
    proof (rule round_fl_Fin)
      show "0 \<le> 1 / ?S" using b(1) by simp
      show "1 / ?S \<le> 2 ^ 30" using b(3) by simp
    qed
    then show ?thesis using b(1) by (simp add: finv32_def)
  qed
  have w: "softmax_weight32 xs x = Fin (rnd32 (e32 m x * ?r))" if "x \<in> set xs" for x
  proof -
    have e: "0 \<le> e32 m x" "e32 m x \<le> 2" using e32_range [of m x] dom [OF that] by simp_all
    have "e32 m x * ?r \<le> 2 * 2" using e b(4,5) by (intro mult_mono) simp_all
    then have p: "0 \<le> e32 m x * ?r" "e32 m x * ?r \<le> 2 ^ 30" using e b(4) by simp_all
    have "round_fl (Fin (e32 m x * ?r)) = Fin (rnd32 (e32 m x * ?r))"
      using p by (rule round_fl_Fin)
    then show ?thesis
      by (simp add: softmax_weight32_def m sum inv fexp32_shifted [OF dom [OF that]] fmul32_def)
  qed
  let ?ws = "map (\<lambda>e. rnd32 (e * ?r)) ?es"
  have "map (softmax_weight32 xs) xs = map Fin ?ws" using w by simp
  moreover have "\<bar>sum_list ?ws - 1\<bar> \<le> (real (length xs) + 1) / 2 ^ 22"
    using b(6) by simp
  ultimately show ?thesis by blast
qed


lemma coattention_body32_total:
  assumes "shape query = [N, Q, H]" and "shape document = [N, D, H]"
    and "shape query_length = [N]" and "shape document_length = [N]"
  shows "\<exists>l. coattention_body32 query query_length document document_length sentinel = Some l"
  by (rule coattention_body32_unfold [OF assms, where sentinel = sentinel]) blast

lemma coattention_body32_facts:
  assumes "shape query = [N, Q, H]" and "shape document = [N, D, H]"
    and "shape query_length = [N]" and "shape document_length = [N]"
    and body: "coattention_body32 query query_length document document_length sentinel = Some l"
  shows "elem (unmasked_affinity l) [n, d, q] =
        fsum32 (map (\<lambda>h. fmul32 (elem document [n, d, h]) (elem query [n, q, h])) [0..<H])"
    and "n < N \<Longrightarrow> d < D \<Longrightarrow> elem (affinity l) [n, d, q] =
        (if int d < elem document_length [n] then elem (unmasked_affinity l) [n, d, q] else NInf)"
    and "elem (attention_p l) [n, d, q] =
        softmax_weight32 (column n D q (affinity l)) (elem (affinity l) [n, d, q])"
    and "n < N \<Longrightarrow> q < Q \<Longrightarrow> elem (affinity_t l) [n, q, d] =
        (if int q < elem query_length [n] then elem (unmasked_affinity l) [n, d, q] else NInf)"
    and "elem (attention_q l) [n, q, d] =
        softmax_weight32 (column n Q d (affinity_t l)) (elem (affinity_t l) [n, q, d])"
  by (rule coattention_body32_unfold [OF assms(1-4), where sentinel = sentinel]; use body in simp)+

lemma normalised_column:
  assumes col: "\<And>i. i < L \<Longrightarrow> col i = (if int i < len then u i else NInf)"
    and fin: "\<forall>i<L. int i < len \<longrightarrow> (\<exists>r. u i = Fin r)"
    and len: "1 \<le> len" and L: "0 < L" "L \<le> 2 ^ 20"
    and w: "\<And>i. w i = softmax_weight32 (map col [0..<L]) (col i)"
  shows "\<exists>ws. map w [0..<L] = map Fin ws \<and> \<bar>sum_list ws - 1\<bar> \<le> (real L + 1) / 2 ^ 22"
proof -
  let ?xs = "map col [0..<L]"
  have um: "unmasked_or_masked (col i)" if iL: "i < L" for i
  proof (cases "int i < len")
    case True
    then have "\<exists>r. u i = Fin r" using fin iL by blast
    then show ?thesis using col [OF iL] True by (auto simp: unmasked_or_masked_def)
  next
    case False
    then show ?thesis using col [OF iL] by (simp add: unmasked_or_masked_def)
  qed
  then have c: "list_all unmasked_or_masked ?xs" by (auto simp: list_all_iff)
  have "int 0 < len" using len by simp
  then have "\<exists>r. u 0 = Fin r" using fin L(1) by blast
  then obtain r where "u 0 = Fin r" ..
  then have "col 0 = Fin r" using col [OF L(1)] len by simp
  then have f: "Fin r \<in> set ?xs" using L(1) by (auto intro!: image_eqI [where x = 0])
  have l: "length ?xs \<le> 2 ^ 20" using L(2) by simp
  from softmax32_column [OF c f l]
  obtain ws where ws: "map (softmax_weight32 ?xs) ?xs = map Fin ws"
    and b: "\<bar>sum_list ws - 1\<bar> \<le> (real (length ?xs) + 1) / 2 ^ 22"
    by (elim exE conjE)
  have e: "map w [0..<L] = map (softmax_weight32 ?xs) ?xs" by (simp add: w)
  have "map w [0..<L] = map Fin ws" unfolding e by (rule ws)
  moreover have "\<bar>sum_list ws - 1\<bar> \<le> (real L + 1) / 2 ^ 22" using b by simp
  ultimately show ?thesis by blast
qed

lemma attention_p32_column:
  assumes "shape query = [N, Q, H]" and "shape document = [N, D, H]"
    and "shape query_length = [N]" and "shape document_length = [N]"
    and body: "coattention_body32 query query_length document document_length sentinel = Some l"
    and "D \<le> 2 ^ 20" and "n < N" and "1 \<le> elem document_length [n]" and "0 < D"
    and "\<forall>d<D. int d < elem document_length [n] \<longrightarrow>
          (\<exists>r. elem (unmasked_affinity l) [n, d, q] = Fin r)"
  shows "\<exists>ws. column n D q (attention_p l) = map Fin ws
        \<and> \<bar>sum_list ws - 1\<bar> \<le> (real D + 1) / 2 ^ 22"
proof -
  note f = coattention_body32_facts [OF assms(1-5)]
  show ?thesis
    unfolding column_def
  proof (rule normalised_column [where col = "\<lambda>i. elem (affinity l) [n, i, q]"
          and u = "\<lambda>i. elem (unmasked_affinity l) [n, i, q]"
          and len = "elem document_length [n]"])
    show "elem (affinity l) [n, i, q] =
        (if int i < elem document_length [n] then elem (unmasked_affinity l) [n, i, q] else NInf)"
      if "i < D" for i using f(2) [OF assms(7) that] .
    show "\<forall>i<D. int i < elem document_length [n] \<longrightarrow>
          (\<exists>r. elem (unmasked_affinity l) [n, i, q] = Fin r)" by (rule assms(10))
    show "1 \<le> elem document_length [n]" by (rule assms(8))
    show "0 < D" by (rule assms(9))
    show "D \<le> 2 ^ 20" by (rule assms(6))
    show "elem (attention_p l) [n, i, q] =
        softmax_weight32 (map (\<lambda>i. elem (affinity l) [n, i, q]) [0..<D])
          (elem (affinity l) [n, i, q])" for i
      using f(3) [of n i q] by (simp add: column_def)
  qed
qed

lemma attention_q32_column:
  assumes "shape query = [N, Q, H]" and "shape document = [N, D, H]"
    and "shape query_length = [N]" and "shape document_length = [N]"
    and body: "coattention_body32 query query_length document document_length sentinel = Some l"
    and "Q \<le> 2 ^ 20" and "n < N" and "1 \<le> elem query_length [n]" and "0 < Q"
    and "\<forall>q<Q. int q < elem query_length [n] \<longrightarrow>
          (\<exists>r. elem (unmasked_affinity l) [n, d, q] = Fin r)"
  shows "\<exists>ws. column n Q d (attention_q l) = map Fin ws
        \<and> \<bar>sum_list ws - 1\<bar> \<le> (real Q + 1) / 2 ^ 22"
proof -
  note f = coattention_body32_facts [OF assms(1-5)]
  show ?thesis
    unfolding column_def
  proof (rule normalised_column [where col = "\<lambda>i. elem (affinity_t l) [n, i, d]"
          and u = "\<lambda>i. elem (unmasked_affinity l) [n, d, i]"
          and len = "elem query_length [n]"])
    show "elem (affinity_t l) [n, i, d] =
        (if int i < elem query_length [n] then elem (unmasked_affinity l) [n, d, i] else NInf)"
      if "i < Q" for i using f(4) [OF assms(7) that] .
    show "\<forall>i<Q. int i < elem query_length [n] \<longrightarrow>
          (\<exists>r. elem (unmasked_affinity l) [n, d, i] = Fin r)" by (rule assms(10))
    show "1 \<le> elem query_length [n]" by (rule assms(8))
    show "0 < Q" by (rule assms(9))
    show "Q \<le> 2 ^ 20" by (rule assms(6))
    show "elem (attention_q l) [n, i, d] =
        softmax_weight32 (map (\<lambda>i. elem (affinity_t l) [n, i, d]) [0..<Q])
          (elem (affinity_t l) [n, i, d])" for i
      using f(5) [of n i d] by (simp add: column_def)
  qed
qed

lemma rnd32_two: "rnd32 2 = 2"
  using rnd32_eval [of 1 2] by (simp add: round_even_def powr_minus powr_numeral)

lemma rnd32_three: "rnd32 3 = 3"
  using rnd32_eval [of 1 3] by (simp add: round_even_def powr_minus powr_numeral)

lemma rnd32_third_fixed: "rnd32 (11184811 / 33554432) = 11184811 / 33554432"
  using rnd32_eval [of "- 2" "11184811 / 33554432"]
  by (simp add: round_even_def powr_minus powr_numeral)

lemma round_fl_values:
  "round_fl (Fin 0) = Fin 0" "round_fl (Fin 1) = Fin 1" "round_fl (Fin 2) = Fin 2"
  "round_fl (Fin 3) = Fin 3" "round_fl (Fin (1 / 3)) = Fin (11184811 / 33554432)"
  "round_fl (Fin (11184811 / 33554432)) = Fin (11184811 / 33554432)"
  by (simp_all add: round_fl_Fin rnd32_two rnd32_three rnd32_third rnd32_third_fixed)

lemma softmax_weight32_three_equal:
  "softmax_weight32 [Fin 1, Fin 1, Fin 1] (Fin 1) = Fin (11184811 / 33554432)"
  by (simp add: softmax_weight32_def fmaximum_def fsub32_def fsub_def fexp32_def fadd32_def
      finv32_def fmul32_def round_fl_values)

lemma unit_affinity32:
  "fsum32 (map (\<lambda>h. fmul32 (Fin 1) (Fin 1)) [0..<1]) = Fin 1"
  by (simp add: fmul32_def fadd32_def round_fl_values)

section \<open>The claims\<close>

text \<open>
  C3. For an affinity tensor \<open>A\<close> of shape \<open>[N, L1, L2]\<close> and a length vector of shape \<open>[N]\<close>,
  \<open>maybe_mask_affinity\<close> returns a tensor of the shape of \<open>A\<close> whose entry \<open>[n, i, j]\<close> is the
  entry of \<open>A\<close> when \<open>i < len[n]\<close> and the mask value otherwise: \<open>-inf\<close> when the call leaves
  the mask value out, the given value \<open>v\<close> when it passes one. Without a length vector the
  input is returned as it is.
\<close>

theorem maybe_mask_affinity_contract:
  assumes "shape A = [N, L1, L2]" and "shape len = [N]"
  shows "(\<exists>M. maybe_mask_affinity A (Some len) None = Some M \<and> shape M = shape A
            \<and> (\<forall>n<N. \<forall>i<L1. \<forall>j<L2. elem M [n, i, j] =
                  (if int i < elem len [n] then elem A [n, i, j] else NInf)))
       \<and> (\<exists>M. maybe_mask_affinity A (Some len) (Some v) = Some M \<and> shape M = shape A
            \<and> (\<forall>n<N. \<forall>i<L1. \<forall>j<L2. elem M [n, i, j] =
                  (if int i < elem len [n] then elem A [n, i, j] else v)))
       \<and> maybe_mask_affinity A None mv = Some A"
proof -
  have "maybe_mask_affinity A None mv = Some A"
    by (simp add: maybe_mask_affinity_def)
  then show ?thesis
    using mask_some [OF assms, of None] mask_some [OF assms, of "Some v"] assms(1)
    by auto
qed

theorem maybe_mask_affinity_contract_witness:
  "shape (fill [1, 3, 2] (Fin 7)) = [1, 3, 2] \<and> shape (fill [1] (2::int)) = [1]
   \<and> (\<exists>M. maybe_mask_affinity (fill [1, 3, 2] (Fin 7)) (Some (fill [1] 2)) None = Some M
         \<and> shape M = [1, 3, 2] \<and> elem M [0, 1, 1] = Fin 7 \<and> elem M [0, 2, 1] = NInf)"
proof -
  have a: "shape (fill [1, 3, 2] (Fin 7)) = [1, 3, 2]" and b: "shape (fill [1] (2::int)) = [1]"
    by simp_all
  from maybe_mask_affinity_contract [OF a b, of "Fin 0" None, THEN conjunct1]
  obtain M where M: "maybe_mask_affinity (fill [1, 3, 2] (Fin 7)) (Some (fill [1] 2)) None = Some M"
    and sh: "shape M = shape (fill [1, 3, 2] (Fin 7))"
    and el: "\<forall>n<1. \<forall>i<3. \<forall>j<2. elem M [n, i, j] =
       (if int i < elem (fill [1] 2) [n] then elem (fill [1, 3, 2] (Fin 7)) [n, i, j] else NInf)"
    by (elim exE conjE)
  have e1: "elem M [0, 1, 1] = Fin 7" using el [rule_format, of 0 1 1] by simp
  have e2: "elem M [0, 2, 1] = NInf" using el [rule_format, of 0 2 1] by simp
  show ?thesis using M sh e1 e2 by simp
qed

text \<open>
  C6. The flag \<open>sentinel\<close> is inert: \<open>coattention\<close> returns the same result, and assigns the
  same local variables, whether it is called with \<open>sentinel=True\<close> (as the first pass of
  \<open>encode\<close> does) or with \<open>sentinel=False\<close>.
\<close>

theorem sentinel_inert:
  "coattention query query_length document document_length True
     = coattention query query_length document document_length False
   \<and> coattention_body query query_length document document_length True
     = coattention_body query query_length document document_length False"
  by (simp add: coattention_def coattention_body_def)



text \<open>
  C7. When a batch element \<open>n\<close> has document length 0, \<open>coattention\<close> still returns a result
  (nothing rejects the input), every attention weight \<open>attention_p[n, d, q]\<close> of that element
  is NaN, and the NaN reaches the results: \<open>summary_q[n, q, h]\<close> is NaN when \<open>D > 0\<close>, and
  \<open>coattention_d[n, d, h]\<close> is NaN when also \<open>Q > 0\<close>.
\<close>

theorem zero_length_gives_nan:
  assumes "shape query = [N, Q, H]" and "shape document = [N, D, H]"
    and "shape query_length = [N]" and "shape document_length = [N]"
    and "n < N" and "elem document_length [n] = 0"
  shows "\<exists>l. coattention_body query query_length document document_length sentinel = Some l
           \<and> coattention query query_length document document_length sentinel
               = Some (summary_q l, summary_d l, coattention_d l)
           \<and> (\<forall>d<D. \<forall>q<Q. elem (attention_p l) [n, d, q] = NaN)
           \<and> (0 < D \<longrightarrow> (\<forall>q<Q. \<forall>h<H. elem (summary_q l) [n, q, h] = NaN))
           \<and> (0 < D \<longrightarrow> 0 < Q \<longrightarrow> (\<forall>d<D. \<forall>h<H. elem (coattention_d l) [n, d, h] = NaN))"
proof -
  obtain l where body: "coattention_body query query_length document document_length sentinel
      = Some l"
    using coattention_body_total [OF assms(1-4)] by blast
  note f = coattention_body_facts [OF assms(1-4) body]
  have masked: "elem (affinity l) [n, i, q] = NInf" if "i < D" for i q
    using f(2) [OF \<open>n < N\<close> that, of q] assms(6) by simp
  have p: "elem (attention_p l) [n, d, q] = NaN" if "d < D" for d q
  proof -
    have "\<forall>y\<in>set (map (\<lambda>i. elem (affinity l) [n, i, q]) [0..<D]). y = NInf"
      using masked by simp
    from softmax_weight_all_masked [OF this] show ?thesis
      by (simp add: f(3) masked [OF that])
  qed
  have sq: "elem (summary_q l) [n, q, h] = NaN" if "0 < D" for q h
  proof -
    have "fmul (elem document [n, 0, h]) (elem (attention_p l) [n, 0, q]) = NaN"
      by (simp add: p [OF that] fmul_NaN_right)
    then have "NaN \<in> set (map (\<lambda>d. fmul (elem document [n, d, h])
        (elem (attention_p l) [n, d, q])) [0..<D])"
      using that by (auto intro!: image_eqI [where x = 0])
    then show ?thesis by (simp only: f(6) fsum_NaN)
  qed
  have cd: "elem (coattention_d l) [n, d, h] = NaN" if "0 < D" "0 < Q" for d h
  proof -
    have "fmul (elem (summary_q l) [n, 0, h]) (elem (attention_q l) [n, 0, d]) = NaN"
      by (simp add: sq [OF that(1)])
    then have "NaN \<in> set (map (\<lambda>q. fmul (elem (summary_q l) [n, q, h])
        (elem (attention_q l) [n, q, d])) [0..<Q])"
      using that(2) by (auto intro!: image_eqI [where x = 0])
    then show ?thesis by (simp only: f(8) fsum_NaN)
  qed
  have "coattention query query_length document document_length sentinel
      = Some (summary_q l, summary_d l, coattention_d l)"
    by (simp add: coattention_def body)
  with body p sq cd show ?thesis by blast
qed

theorem zero_length_gives_nan_witness:
  "shape (fill [1, 2, 1] (Fin 3)) = [1, 2, 1] \<and> shape (fill [1, 2, 1] (Fin 4)) = [1, 2, 1]
   \<and> shape (fill [1] (2::int)) = [1] \<and> shape (fill [1] (0::int)) = [1]
   \<and> (0::nat) < 1 \<and> elem (fill [1] (0::int)) [0] = 0
   \<and> (\<exists>l. coattention_body (fill [1, 2, 1] (Fin 3)) (fill [1] 2) (fill [1, 2, 1] (Fin 4))
              (fill [1] 0) False = Some l
          \<and> coattention (fill [1, 2, 1] (Fin 3)) (fill [1] 2) (fill [1, 2, 1] (Fin 4))
              (fill [1] 0) False = Some (summary_q l, summary_d l, coattention_d l)
          \<and> elem (attention_p l) [0, 1, 1] = NaN
          \<and> elem (summary_q l) [0, 1, 0] = NaN
          \<and> elem (coattention_d l) [0, 1, 0] = NaN)"
proof -
  have h: "shape (fill [1, 2, 1] (Fin 3)) = [1, 2, 1]" "shape (fill [1, 2, 1] (Fin 4)) = [1, 2, 1]"
    "shape (fill [1] (2::int)) = [1]" "shape (fill [1] (0::int)) = [1]"
    "(0::nat) < 1" "elem (fill [1] (0::int)) [0] = 0"
    by simp_all
  from zero_length_gives_nan [OF h, where sentinel = False]
  obtain l where b: "coattention_body (fill [1, 2, 1] (Fin 3)) (fill [1] 2)
        (fill [1, 2, 1] (Fin 4)) (fill [1] 0) False = Some l"
    and c: "coattention (fill [1, 2, 1] (Fin 3)) (fill [1] 2) (fill [1, 2, 1] (Fin 4))
        (fill [1] 0) False = Some (summary_q l, summary_d l, coattention_d l)"
    and p: "\<forall>d<2. \<forall>q<2. elem (attention_p l) [0, d, q] = NaN"
    and sq: "0 < (2::nat) \<longrightarrow> (\<forall>q<2. \<forall>h<1. elem (summary_q l) [0, q, h] = NaN)"
    and cd: "0 < (2::nat) \<longrightarrow> 0 < (2::nat) \<longrightarrow>
        (\<forall>d<2. \<forall>h<1. elem (coattention_d l) [0, d, h] = NaN)"
    by (elim exE conjE)
  have "elem (attention_p l) [0, 1, 1] = NaN" using p [rule_format, of 1 1] by simp
  moreover have "elem (summary_q l) [0, 1, 0] = NaN" using sq [rule_format, of 1 0] by simp
  moreover have "elem (coattention_d l) [0, 1, 0] = NaN"
    using cd [rule_format, of 1 0] by simp
  ultimately show ?thesis using h b c by blast
qed

text \<open>
  C8. In binary32, for every batch element \<open>n\<close> with a document length of at least 1 and
  every query position \<open>q\<close>, the weights \<open>attention_p[n, :, q]\<close> are finite numbers whose sum
  over the document axis is within \<open>(D + 1) / 2^22\<close> of 1, when the logits of the column that
  are not masked are finite (the affinity did not overflow) and \<open>D\<close> is at most \<open>2^20\<close>. The
  same holds for \<open>attention_q[n, :, d]\<close> over the query axis, for every \<open>n\<close> with a query
  length of at least 1 and every document position \<open>d\<close>, with \<open>Q\<close> in place of \<open>D\<close>.
\<close>

theorem attention_normalised_up_to_rounding:
  assumes "shape query = [N, Q, H]" and "shape document = [N, D, H]"
    and "shape query_length = [N]" and "shape document_length = [N]"
    and "D \<le> 2 ^ 20" and "Q \<le> 2 ^ 20"
  shows "\<exists>l. coattention_body32 query query_length document document_length sentinel = Some l
      \<and> (\<forall>n<N. \<forall>q<Q. 1 \<le> elem document_length [n] \<longrightarrow> 0 < D \<longrightarrow>
            (\<forall>d<D. int d < elem document_length [n] \<longrightarrow>
                (\<exists>r. elem (unmasked_affinity l) [n, d, q] = Fin r)) \<longrightarrow>
            (\<exists>ws. column n D q (attention_p l) = map Fin ws
                \<and> \<bar>sum_list ws - 1\<bar> \<le> (real D + 1) / 2 ^ 22))
      \<and> (\<forall>n<N. \<forall>d<D. 1 \<le> elem query_length [n] \<longrightarrow> 0 < Q \<longrightarrow>
            (\<forall>q<Q. int q < elem query_length [n] \<longrightarrow>
                (\<exists>r. elem (unmasked_affinity l) [n, d, q] = Fin r)) \<longrightarrow>
            (\<exists>ws. column n Q d (attention_q l) = map Fin ws
                \<and> \<bar>sum_list ws - 1\<bar> \<le> (real Q + 1) / 2 ^ 22))"
proof -
  obtain l where body: "coattention_body32 query query_length document document_length sentinel
        = Some l"
    using coattention_body32_total [OF assms(1-4)] by blast
  note p = attention_p32_column [OF assms(1-4) body assms(5)]
    and a = attention_q32_column [OF assms(1-4) body assms(6)]
  from body p a show ?thesis by blast
qed

theorem attention_normalised_up_to_rounding_witness:
  "shape (fill [1, 1, 1] (Fin 1)) = [1, 1, 1] \<and> shape (fill [1, 3, 1] (Fin 1)) = [1, 3, 1]
   \<and> shape (fill [1] (1::int)) = [1] \<and> shape (fill [1] (2::int)) = [1]
   \<and> (3::nat) \<le> 2 ^ 20 \<and> (1::nat) \<le> 2 ^ 20 \<and> (0::nat) < 1
   \<and> 1 \<le> elem (fill [1] (2::int)) [0] \<and> (0::nat) < 3
   \<and> (\<exists>l. coattention_body32 (fill [1, 1, 1] (Fin 1)) (fill [1] 1)
              (fill [1, 3, 1] (Fin 1)) (fill [1] 2) False = Some l
          \<and> elem (unmasked_affinity l) [0, 0, 0] = Fin 1
          \<and> elem (unmasked_affinity l) [0, 1, 0] = Fin 1
          \<and> (\<exists>ws. column 0 3 0 (attention_p l) = map Fin ws
                \<and> \<bar>sum_list ws - 1\<bar> \<le> (real 3 + 1) / 2 ^ 22))"
proof -
  have h: "shape (fill [1, 1, 1] (Fin 1)) = [1, 1, 1]" "shape (fill [1, 3, 1] (Fin 1)) = [1, 3, 1]"
    "shape (fill [1] (1::int)) = [1]" "shape (fill [1] (2::int)) = [1]"
    "(3::nat) \<le> 2 ^ 20" "(1::nat) \<le> 2 ^ 20"
    by simp_all
  have k: "(0::nat) < 1" "1 \<le> elem (fill [1] (2::int)) [0]" "(0::nat) < 3"
    by simp_all
  from attention_normalised_up_to_rounding [OF h, where sentinel = False]
  obtain l where b: "coattention_body32 (fill [1, 1, 1] (Fin 1)) (fill [1] 1)
        (fill [1, 3, 1] (Fin 1)) (fill [1] 2) False = Some l"
    and p: "\<forall>n<1. \<forall>q<1. 1 \<le> elem (fill [1] (2::int)) [n] \<longrightarrow> 0 < (3::nat) \<longrightarrow>
        (\<forall>d<3. int d < elem (fill [1] (2::int)) [n] \<longrightarrow>
            (\<exists>r. elem (unmasked_affinity l) [n, d, q] = Fin r)) \<longrightarrow>
        (\<exists>ws. column n 3 q (attention_p l) = map Fin ws
            \<and> \<bar>sum_list ws - 1\<bar> \<le> (real 3 + 1) / 2 ^ 22)"
    by (elim exE conjE)
  note f = coattention_body32_facts [OF h(1-4) b]
  have ua: "elem (unmasked_affinity l) [0, d, 0] = Fin 1" for d
    using f(1) [of 0 d 0] unit_affinity32 by simp
  have fin: "\<forall>d<3. int d < elem (fill [1] (2::int)) [0] \<longrightarrow>
      (\<exists>r. elem (unmasked_affinity l) [0, d, 0] = Fin r)"
    using ua by blast
  have "\<exists>ws. column 0 3 0 (attention_p l) = map Fin ws
      \<and> \<bar>sum_list ws - 1\<bar> \<le> (real 3 + 1) / 2 ^ 22"
    using p [rule_format, of 0 0, OF k(1) k(1) k(2) k(3) fin [rule_format]] .
  with h k b ua [of 0] ua [of 1] show ?thesis by blast
qed

text \<open>
  The sum need not be 1. A query of one position and a document of three positions, every
  entry 1, none masked: the three logits are equal, each weight is the binary32 number
  nearest to \<open>1/3\<close>, and the three weights add up to \<open>1 + 2^-25\<close>.
\<close>

theorem attention_sum_counterexample:
  "1 \<le> elem (fill [1] (3::int)) [0]
   \<and> map_option (column 0 3 0 \<circ> attention_p)
        (coattention_body32 (fill [1, 1, 1] (Fin 1)) (fill [1] 1)
           (fill [1, 3, 1] (Fin 1)) (fill [1] 3) False)
      = Some [Fin (11184811 / 33554432), Fin (11184811 / 33554432), Fin (11184811 / 33554432)]
   \<and> (11184811 / 33554432 + 11184811 / 33554432 + 11184811 / 33554432 :: real) \<noteq> 1"
proof -
  have h: "shape (fill [1, 1, 1] (Fin 1)) = [1, 1, 1]" "shape (fill [1, 3, 1] (Fin 1)) = [1, 3, 1]"
    "shape (fill [1] (1::int)) = [1]" "shape (fill [1] (3::int)) = [1]"
    by simp_all
  obtain l where b: "coattention_body32 (fill [1, 1, 1] (Fin 1)) (fill [1] 1)
        (fill [1, 3, 1] (Fin 1)) (fill [1] 3) False = Some l"
    using coattention_body32_total [OF h] by blast
  note f = coattention_body32_facts [OF h b]
  have ua: "elem (unmasked_affinity l) [0, d, 0] = Fin 1" for d
    using f(1) [of 0 d 0] unit_affinity32 by simp
  have af: "elem (affinity l) [0, d, 0] = Fin 1" if "d < 3" for d
    using f(2) [of 0 d 0] that ua by simp
  have col: "column 0 3 0 (affinity l) = [Fin 1, Fin 1, Fin 1]"
    by (simp add: column_def upt_rec af)
  have ap: "elem (attention_p l) [0, d, 0] = Fin (11184811 / 33554432)" if "d < 3" for d
    using f(3) [of 0 d 0] by (simp add: col af [OF that] softmax_weight32_three_equal)
  have "column 0 3 0 (attention_p l)
      = [Fin (11184811 / 33554432), Fin (11184811 / 33554432), Fin (11184811 / 33554432)]"
    by (simp add: column_def upt_rec ap)
  with b show ?thesis by simp
qed

text \<open>
  C2. For a query of shape \<open>[N, Q, H]\<close> and a document of shape \<open>[N, D, H]\<close> the function
  returns the three tensors \<open>summary_q\<close>, \<open>summary_d\<close> and \<open>coattention_d\<close>, of shapes
  \<open>[N, Q, H]\<close>, \<open>[N, D, H]\<close> and \<open>[N, D, H]\<close>, with
  \<open>summary_q[n, q, h] = sum over d of document[n, d, h] * attention_p[n, d, q]\<close>,
  \<open>summary_d[n, d, h] = sum over q of query[n, q, h] * attention_q[n, q, d]\<close> and
  \<open>coattention_d[n, d, h] = sum over q of summary_q[n, q, h] * attention_q[n, q, d]\<close>,
  where \<open>attention_p\<close> is the softmax over axis 1 of the affinity
  \<open>sum over h of document[n, d, h] * query[n, q, h]\<close> masked by the document lengths, and
  \<open>attention_q\<close> the softmax over axis 1 of its transpose masked by the query lengths.
\<close>

theorem coattention_summaries:
  assumes "shape query = [N, Q, H]" and "shape document = [N, D, H]"
    and "shape query_length = [N]" and "shape document_length = [N]"
  shows "\<exists>l. coattention_body query query_length document document_length sentinel = Some l
      \<and> coattention query query_length document document_length sentinel
          = Some (summary_q l, summary_d l, coattention_d l)
      \<and> shape (summary_q l) = [N, Q, H] \<and> shape (summary_d l) = [N, D, H]
      \<and> shape (coattention_d l) = [N, D, H]
      \<and> (\<forall>n q h. elem (summary_q l) [n, q, h] =
            fsum (map (\<lambda>d. fmul (elem document [n, d, h]) (elem (attention_p l) [n, d, q]))
                      [0..<D]))
      \<and> (\<forall>n d h. elem (summary_d l) [n, d, h] =
            fsum (map (\<lambda>q. fmul (elem query [n, q, h]) (elem (attention_q l) [n, q, d]))
                      [0..<Q]))
      \<and> (\<forall>n d h. elem (coattention_d l) [n, d, h] =
            fsum (map (\<lambda>q. fmul (elem (summary_q l) [n, q, h]) (elem (attention_q l) [n, q, d]))
                      [0..<Q]))
      \<and> (\<forall>n d q. elem (unmasked_affinity l) [n, d, q] =
            fsum (map (\<lambda>h. fmul (elem document [n, d, h]) (elem query [n, q, h])) [0..<H]))
      \<and> maybe_mask_affinity (unmasked_affinity l) (Some document_length) None
          = Some (affinity l)
      \<and> softmax (affinity l) 1 = Some (attention_p l)
      \<and> (\<exists>t. transpose_tensor (unmasked_affinity l) [0, 2, 1] = Some t
            \<and> maybe_mask_affinity t (Some query_length) None = Some (affinity_t l))
      \<and> softmax (affinity_t l) 1 = Some (attention_q l)"
proof -
  obtain l where body: "coattention_body query query_length document document_length sentinel
      = Some l"
    using coattention_body_total [OF assms] by blast
  note f = coattention_body_facts [OF assms body]
  note e = coattention_body_SomeD [OF body]
  have "coattention query query_length document document_length sentinel
      = Some (summary_q l, summary_d l, coattention_d l)"
    by (simp add: coattention_def body)
  with body f(1,6,7,8,11,12,13) e(2,3,4,5) show ?thesis by blast
qed

theorem coattention_summaries_witness:
  "shape (fill [1, 2, 1] (Fin 3)) = [1, 2, 1] \<and> shape (fill [1, 3, 1] (Fin 4)) = [1, 3, 1]
   \<and> shape (fill [1] (2::int)) = [1] \<and> shape (fill [1] (3::int)) = [1]
   \<and> (\<exists>l. coattention_body (fill [1, 2, 1] (Fin 3)) (fill [1] 2) (fill [1, 3, 1] (Fin 4))
              (fill [1] 3) False = Some l
          \<and> coattention (fill [1, 2, 1] (Fin 3)) (fill [1] 2) (fill [1, 3, 1] (Fin 4))
              (fill [1] 3) False = Some (summary_q l, summary_d l, coattention_d l)
          \<and> shape (summary_q l) = [1, 2, 1] \<and> shape (summary_d l) = [1, 3, 1]
          \<and> shape (coattention_d l) = [1, 3, 1]
          \<and> elem (summary_q l) [0, 1, 0] =
               fsum (map (\<lambda>d. fmul (Fin 4) (elem (attention_p l) [0, d, 1])) [0..<3])
          \<and> elem (summary_d l) [0, 2, 0] =
               fsum (map (\<lambda>q. fmul (Fin 3) (elem (attention_q l) [0, q, 2])) [0..<2]))"
proof -
  have h: "shape (fill [1, 2, 1] (Fin 3)) = [1, 2, 1]" "shape (fill [1, 3, 1] (Fin 4)) = [1, 3, 1]"
    "shape (fill [1] (2::int)) = [1]" "shape (fill [1] (3::int)) = [1]"
    by simp_all
  from coattention_summaries [OF h, where sentinel = False]
  obtain l where b: "coattention_body (fill [1, 2, 1] (Fin 3)) (fill [1] 2)
        (fill [1, 3, 1] (Fin 4)) (fill [1] 3) False = Some l"
    and c: "coattention (fill [1, 2, 1] (Fin 3)) (fill [1] 2) (fill [1, 3, 1] (Fin 4))
        (fill [1] 3) False = Some (summary_q l, summary_d l, coattention_d l)"
    and sh: "shape (summary_q l) = [1, 2, 1]" "shape (summary_d l) = [1, 3, 1]"
      "shape (coattention_d l) = [1, 3, 1]"
    and sq: "\<forall>n q h. elem (summary_q l) [n, q, h] =
            fsum (map (\<lambda>d. fmul (elem (fill [1, 3, 1] (Fin 4)) [n, d, h])
                                (elem (attention_p l) [n, d, q])) [0..<3])"
    and sd: "\<forall>n d h. elem (summary_d l) [n, d, h] =
            fsum (map (\<lambda>q. fmul (elem (fill [1, 2, 1] (Fin 3)) [n, q, h])
                                (elem (attention_q l) [n, q, d])) [0..<2])"
    by (elim exE conjE)
  have "elem (summary_q l) [0, 1, 0] =
      fsum (map (\<lambda>d. fmul (Fin 4) (elem (attention_p l) [0, d, 1])) [0..<3])"
    using sq [rule_format, of 0 1 0] by simp
  moreover have "elem (summary_d l) [0, 2, 0] =
      fsum (map (\<lambda>q. fmul (Fin 3) (elem (attention_q l) [0, q, 2])) [0..<2])"
    using sd [rule_format, of 0 2 0] by simp
  ultimately show ?thesis using h b c sh by blast
qed

text \<open>
  C10. The mask of \<open>attention_p\<close> is built from the document lengths only and that of
  \<open>attention_q\<close> from the query lengths only: replacing the query lengths leaves
  \<open>attention_p\<close> and \<open>summary_q\<close> unchanged, and replacing the document lengths leaves
  \<open>attention_q\<close> and \<open>summary_d\<close> unchanged. For tensors of finite entries the column of
  \<open>attention_p\<close> at a padded query position (one at or beyond the query length) is still
  normalised over the document axis, and symmetrically for \<open>attention_q\<close> at a padded
  document position. The summaries at padded positions need not be zero: for a batch of one
  with a single position, length 0 on one side and the other side's entry equal to 1, the
  summary at the padded position is 1.
\<close>

theorem attention_ignores_other_length:
  assumes "shape query = [N, Q, H]" and "shape document = [N, D, H]"
    and "shape query_length = [N]" and "shape document_length = [N]"
    and "shape query_length' = [N]" and "shape document_length' = [N]"
  shows "(\<exists>l lq ld.
            coattention_body query query_length document document_length sentinel = Some l
          \<and> coattention_body query query_length' document document_length sentinel = Some lq
          \<and> coattention_body query query_length document document_length' sentinel = Some ld
          \<and> attention_p lq = attention_p l \<and> summary_q lq = summary_q l
          \<and> attention_q ld = attention_q l \<and> summary_d ld = summary_d l
          \<and> ((\<exists>rq rd. query = of_real_tensor rq \<and> document = of_real_tensor rd) \<longrightarrow>
                (\<forall>n<N. \<forall>q<Q. elem query_length [n] \<le> int q \<longrightarrow>
                    1 \<le> elem document_length [n] \<longrightarrow> 0 < D \<longrightarrow>
                    fsum (map (\<lambda>d. elem (attention_p l) [n, d, q]) [0..<D]) = Fin 1)
              \<and> (\<forall>n<N. \<forall>d<D. elem document_length [n] \<le> int d \<longrightarrow>
                    1 \<le> elem query_length [n] \<longrightarrow> 0 < Q \<longrightarrow>
                    fsum (map (\<lambda>q. elem (attention_q l) [n, q, d]) [0..<Q]) = Fin 1)))
       \<and> (\<exists>l. coattention_body (of_real_tensor (fill [1, 1, 1] 0)) (fill [1] 0)
                  (of_real_tensor (fill [1, 1, 1] 1)) (fill [1] 1) False = Some l
              \<and> elem (fill [1] (0::int)) [0] \<le> int 0
              \<and> elem (summary_q l) [0, 0, 0] = Fin 1)
       \<and> (\<exists>l. coattention_body (of_real_tensor (fill [1, 1, 1] 1)) (fill [1] 1)
                  (of_real_tensor (fill [1, 1, 1] 0)) (fill [1] 0) False = Some l
              \<and> elem (fill [1] (0::int)) [0] \<le> int 0
              \<and> elem (summary_d l) [0, 0, 0] = Fin 1)"
proof -
  obtain l where l: "coattention_body query query_length document document_length sentinel
      = Some l"
    using coattention_body_total [OF assms(1,2,3,4)] by blast
  obtain lq where lq: "coattention_body query query_length' document document_length sentinel
      = Some lq"
    using coattention_body_total [OF assms(1,2,5,4)] by blast
  obtain ld where ld: "coattention_body query query_length document document_length' sentinel
      = Some ld"
    using coattention_body_total [OF assms(1,2,3,6)] by blast
  note p = attention_p_determined [OF l lq] and q = attention_q_determined [OF l ld]
  have r: "(\<forall>n<N. \<forall>q<Q. elem query_length [n] \<le> int q \<longrightarrow>
                1 \<le> elem document_length [n] \<longrightarrow> 0 < D \<longrightarrow>
                fsum (map (\<lambda>d. elem (attention_p l) [n, d, q]) [0..<D]) = Fin 1)
          \<and> (\<forall>n<N. \<forall>d<D. elem document_length [n] \<le> int d \<longrightarrow>
                1 \<le> elem query_length [n] \<longrightarrow> 0 < Q \<longrightarrow>
                fsum (map (\<lambda>q. elem (attention_q l) [n, q, d]) [0..<Q]) = Fin 1)"
    if "\<exists>rq rd. query = of_real_tensor rq \<and> document = of_real_tensor rd"
  proof -
    from that obtain rq rd where e: "query = of_real_tensor rq" "document = of_real_tensor rd"
      by blast
    have s: "shape rq = [N, Q, H]" "shape rd = [N, D, H]"
      using assms(1,2) e by simp_all
    have b: "coattention_body (of_real_tensor rq) query_length (of_real_tensor rd)
        document_length sentinel = Some l"
      using l e by simp
    from attention_p_column_sum [OF s assms(3,4) b] attention_q_column_sum [OF s assms(3,4) b]
    show ?thesis by blast
  qed
  have "elem (fill [1] (0::int)) [0] \<le> int 0" by simp
  with l lq ld p q r padded_summary_q_example padded_summary_d_example
  show ?thesis by blast
qed

theorem attention_ignores_other_length_witness:
  "shape (of_real_tensor (fill [1, 2, 1] 3)) = [1, 2, 1]
   \<and> shape (of_real_tensor (fill [1, 2, 1] 4)) = [1, 2, 1]
   \<and> shape (fill [1] (1::int)) = [1] \<and> shape (fill [1] (2::int)) = [1]
   \<and> (0::nat) < 1 \<and> (1::nat) < 2 \<and> elem (fill [1] (1::int)) [0] \<le> int 1
   \<and> 1 \<le> elem (fill [1] (2::int)) [0] \<and> (0::nat) < 2
   \<and> (\<exists>l lq ld.
          coattention_body (of_real_tensor (fill [1, 2, 1] 3)) (fill [1] 1)
            (of_real_tensor (fill [1, 2, 1] 4)) (fill [1] 2) False = Some l
        \<and> coattention_body (of_real_tensor (fill [1, 2, 1] 3)) (fill [1] 2)
            (of_real_tensor (fill [1, 2, 1] 4)) (fill [1] 2) False = Some lq
        \<and> coattention_body (of_real_tensor (fill [1, 2, 1] 3)) (fill [1] 1)
            (of_real_tensor (fill [1, 2, 1] 4)) (fill [1] 1) False = Some ld
        \<and> attention_p lq = attention_p l \<and> summary_q lq = summary_q l
        \<and> attention_q ld = attention_q l \<and> summary_d ld = summary_d l
        \<and> fsum (map (\<lambda>d. elem (attention_p l) [0, d, 1]) [0..<2]) = Fin 1)"
proof -
  have h: "shape (of_real_tensor (fill [1, 2, 1] 3)) = [1, 2, 1]"
    "shape (of_real_tensor (fill [1, 2, 1] 4)) = [1, 2, 1]"
    "shape (fill [1] (1::int)) = [1]" "shape (fill [1] (2::int)) = [1]"
    "shape (fill [1] (2::int)) = [1]" "shape (fill [1] (1::int)) = [1]"
    by simp_all
  have k: "(0::nat) < 1" "(1::nat) < 2" "elem (fill [1] (1::int)) [0] \<le> int 1"
    "1 \<le> elem (fill [1] (2::int)) [0]" "(0::nat) < 2"
    by simp_all
  have e: "\<exists>rq rd. of_real_tensor (fill [1, 2, 1] 3) = of_real_tensor rq
      \<and> of_real_tensor (fill [1, 2, 1] 4) = of_real_tensor rd"
    by blast
  from attention_ignores_other_length [OF h, where sentinel = False, THEN conjunct1]
  obtain l lq ld where b: "coattention_body (of_real_tensor (fill [1, 2, 1] 3)) (fill [1] 1)
        (of_real_tensor (fill [1, 2, 1] 4)) (fill [1] 2) False = Some l"
      "coattention_body (of_real_tensor (fill [1, 2, 1] 3)) (fill [1] 2)
        (of_real_tensor (fill [1, 2, 1] 4)) (fill [1] 2) False = Some lq"
      "coattention_body (of_real_tensor (fill [1, 2, 1] 3)) (fill [1] 1)
        (of_real_tensor (fill [1, 2, 1] 4)) (fill [1] 1) False = Some ld"
    and eq: "attention_p lq = attention_p l" "summary_q lq = summary_q l"
      "attention_q ld = attention_q l" "summary_d ld = summary_d l"
    and r: "(\<exists>rq rd. of_real_tensor (fill [1, 2, 1] 3) = of_real_tensor rq
               \<and> of_real_tensor (fill [1, 2, 1] 4) = of_real_tensor rd) \<longrightarrow>
            (\<forall>n<1. \<forall>q<2. elem (fill [1] (1::int)) [n] \<le> int q \<longrightarrow>
                1 \<le> elem (fill [1] (2::int)) [n] \<longrightarrow> 0 < (2::nat) \<longrightarrow>
                fsum (map (\<lambda>d. elem (attention_p l) [n, d, q]) [0..<2]) = Fin 1)
          \<and> (\<forall>n<1. \<forall>d<2. elem (fill [1] (2::int)) [n] \<le> int d \<longrightarrow>
                1 \<le> elem (fill [1] (1::int)) [n] \<longrightarrow> 0 < (2::nat) \<longrightarrow>
                fsum (map (\<lambda>q. elem (attention_q l) [n, q, d]) [0..<2]) = Fin 1)"
    by (elim exE conjE)
  from r e have "\<forall>n<1. \<forall>q<2. elem (fill [1] (1::int)) [n] \<le> int q \<longrightarrow>
      1 \<le> elem (fill [1] (2::int)) [n] \<longrightarrow> 0 < (2::nat) \<longrightarrow>
      fsum (map (\<lambda>d. elem (attention_p l) [n, d, q]) [0..<2]) = Fin 1"
    by (rule mp [THEN conjunct1])
  from this [rule_format, of 0 1] k
  have "fsum (map (\<lambda>d. elem (attention_p l) [0, d, 1]) [0..<2]) = Fin 1"
    by simp
  with h(1-4) k b eq show ?thesis by blast
qed

text \<open>
  C4. For every final encoding of shape \<open>[N, D, F]\<close>, \<open>decode\<close> returns two tensors,
  \<open>start_logit\<close> and \<open>end_logit\<close>, each of the shape \<open>[N, D]\<close> with every dimension of size 1
  removed (the squeeze is called without an axis): \<open>[N, D]\<close> when neither \<open>N\<close> nor \<open>D\<close> is 1,
  \<open>[N]\<close> when only \<open>D\<close> is 1, \<open>[D]\<close> when only \<open>N\<close> is 1, and the scalar shape \<open>[]\<close> when
  both are 1. When neither is 1, the entry \<open>[n, d]\<close> is the dense projection of
  \<open>encoding[n, d, :]\<close> to one scalar, with the variables of the layer's own scope.
\<close>

theorem decode_shapes:
  assumes "shape encoding = [N, D, F]"
    and "shape (kernel (decode_start vars)) = [F, 1]" and "shape (bias (decode_start vars)) = [1]"
    and "shape (kernel (decode_end vars)) = [F, 1]" and "shape (bias (decode_end vars)) = [1]"
  shows "\<exists>s e. decode vars encoding = Some (s, e)
      \<and> shape s = filter (\<lambda>d. d \<noteq> 1) [N, D] \<and> shape e = filter (\<lambda>d. d \<noteq> 1) [N, D]
      \<and> (N \<noteq> 1 \<and> D \<noteq> 1 \<longrightarrow> shape s = [N, D] \<and> shape e = [N, D]
            \<and> (\<forall>n d. elem s [n, d] =
                  fadd (fsum (map (\<lambda>f. fmul (elem encoding [n, d, f])
                                             (elem (kernel (decode_start vars)) [f, 0])) [0..<F]))
                       (elem (bias (decode_start vars)) [0]))
            \<and> (\<forall>n d. elem e [n, d] =
                  fadd (fsum (map (\<lambda>f. fmul (elem encoding [n, d, f])
                                             (elem (kernel (decode_end vars)) [f, 0])) [0..<F]))
                       (elem (bias (decode_end vars)) [0])))
      \<and> (N \<noteq> 1 \<and> D = 1 \<longrightarrow> shape s = [N] \<and> shape e = [N])
      \<and> (N = 1 \<and> D \<noteq> 1 \<longrightarrow> shape s = [D] \<and> shape e = [D])
      \<and> (N = 1 \<and> D = 1 \<longrightarrow> shape s = [] \<and> shape e = [])"
  using assms by (simp add: decode_def dense_def squeeze_def rank_def)

theorem decode_shapes_witness:
  "shape (fill [2, 3, 1] (Fin 5)) = [2, 3, 1]
   \<and> shape (kernel \<lparr>kernel = fill [1, 1] (Fin 2), bias = fill [1] (Fin 1)\<rparr>) = [1, 1]
   \<and> shape (bias \<lparr>kernel = fill [1, 1] (Fin 2), bias = fill [1] (Fin 1)\<rparr>) = [1]
   \<and> (2::nat) \<noteq> 1 \<and> (3::nat) \<noteq> 1
   \<and> (\<exists>s e. decode \<lparr>decode_start = \<lparr>kernel = fill [1, 1] (Fin 2), bias = fill [1] (Fin 1)\<rparr>,
                      decode_end = \<lparr>kernel = fill [1, 1] (Fin 2), bias = fill [1] (Fin 1)\<rparr>\<rparr>
                (fill [2, 3, 1] (Fin 5)) = Some (s, e)
          \<and> shape s = [2, 3] \<and> shape e = [2, 3] \<and> elem s [1, 2] = Fin 11)"
  using decode_shapes [of "fill [2, 3, 1] (Fin 5)" 2 3 1
      "\<lparr>decode_start = \<lparr>kernel = fill [1, 1] (Fin 2), bias = fill [1] (Fin 1)\<rparr>,
        decode_end = \<lparr>kernel = fill [1, 1] (Fin 2), bias = fill [1] (Fin 1)\<rparr>\<rparr>"]
  by (simp add: fsum_def) blast

text \<open>
  A batch of one document of two positions: the two logits have shape \<open>[2]\<close>, the batch
  dimension being squeezed away as well.
\<close>

theorem decode_shape_counterexample:
  "shape (fill [1, 2, 1] (Fin 0)) = [1, 2, 1]
   \<and> map_option (shape \<circ> fst)
        (decode \<lparr>decode_start = \<lparr>kernel = fill [1, 1] (Fin 0), bias = fill [1] (Fin 0)\<rparr>,
                 decode_end = \<lparr>kernel = fill [1, 1] (Fin 0), bias = fill [1] (Fin 0)\<rparr>\<rparr>
           (fill [1, 2, 1] (Fin 0))) = Some [2]
   \<and> map_option (shape \<circ> snd)
        (decode \<lparr>decode_start = \<lparr>kernel = fill [1, 1] (Fin 0), bias = fill [1] (Fin 0)\<rparr>,
                 decode_end = \<lparr>kernel = fill [1, 1] (Fin 0), bias = fill [1] (Fin 0)\<rparr>\<rparr>
           (fill [1, 2, 1] (Fin 0))) = Some [2]"
  by (simp add: decode_def dense_def squeeze_def fill_def rank_def)

text \<open>
  C5. The dense layer of \<open>query_document_encoder\<close> is called on the query encoding alone,
  with the graph tensor \<open>tf.shape(query_encoding)[2]\<close> as its number of units. The layer
  needs an integer there, so the call raises for every input: the function returns
  neither a projected query encoding nor a document encoding.
\<close>

theorem query_document_encoder_raises:
  "query_document_encoder rnn dense_v cell_fw cell_bw query query_length
     document document_length = None"
  by (simp add: query_document_encoder_def dense_def split: bind_splits prod.splits)

text \<open>
  C9. One call on the same sequences and the same lengths for the query and the document,
  with cells whose weights scale the input by 2 and by 3: the query pass and its
  concatenation give the value of shape \<open>[1, 2, 2]\<close> that the projection is applied to, and
  the call raises at the dense layer, before the document pass. No document encoding is
  returned.
\<close>

theorem shared_cells_call_raises:
  "map_option shape
     (tf_concat [scalar_mul (Fin 2) (fill [1, 2, 1] (Fin 5)),
                 scalar_mul (Fin 3) (fill [1, 2, 1] (Fin 5))] 2) = Some [1, 2, 2]
   \<and> query_document_encoder
        (\<lambda>cf cb x (len::int tensor). Some (scalar_mul cf x, scalar_mul cb x))
        \<lparr>kernel = fill [2, 2] (Fin 1), bias = fill [2] (Fin 0)\<rparr> (Fin 2) (Fin 3)
        (fill [1, 2, 1] (Fin 5)) (fill [1] 2) (fill [1, 2, 1] (Fin 5)) (fill [1] 2) = None"
  by (simp add: query_document_encoder_def dense_def tf_concat_def tf_shape_at_def rank_def
      scalar_mul_def fill_def)

end
